theory Spec2Isabelle
  imports Main "HOL-Library.AList"
begin

section \<open>Errors and outcomes\<close>

text \<open>
  The exceptions the core of \<^verbatim>\<open>hw_m2_se.py\<close> can raise. Python raises \<^verbatim>\<open>ValueError\<close> at
  all of the first three sites; they are kept apart by the place that raises them:
  \<^item> \<open>InvalidFormat\<close>: the \<^verbatim>\<open>ValueError\<close> raised by \<^verbatim>\<open>Phone.__init__\<close> and \<^verbatim>\<open>Birthday.__init__\<close>;
  \<^item> \<open>NotFound\<close>: \<^verbatim>\<open>ValueError('Old number not found!')\<close> of \<^verbatim>\<open>Record.edit_phone\<close>;
  \<^item> \<open>ValueError\<close>: a \<^verbatim>\<open>ValueError\<close> of the datetime library that nothing catches
    (\<^verbatim>\<open>strptime\<close>, the \<^verbatim>\<open>date\<close> constructor, \<^verbatim>\<open>date.replace\<close>);
  \<^item> \<open>OverflowError\<close>: \<^verbatim>\<open>date + timedelta\<close> leaving the range of \<^verbatim>\<open>date\<close>.
\<close>

datatype error = InvalidFormat | NotFound | ValueError | OverflowError

text \<open>
  A method that mutates \<^verbatim>\<open>self\<close> either returns, leaving a new state, or raises, and
  then too the object is in some state: the one it had when the exception left the method.
\<close>

datatype 'a outcome = Return 'a | Raise error 'a

fun state_of :: "'a outcome \<Rightarrow> 'a" where
  "state_of (Return s) = s"
| "state_of (Raise e s) = s"

section \<open>Strings\<close>

text \<open>
  A Python \<^verbatim>\<open>str\<close> is a sequence of Unicode code points, and \<^verbatim>\<open>len\<close> counts them: it is
  modelled by the list of its code points, the integers that \<^verbatim>\<open>ord\<close> gives. \<open>lit\<close> gives the
  string written as a literal.
\<close>

type_synonym str = "int list"

definition lit :: "string \<Rightarrow> str" where
  "lit s = map of_char s"

text \<open>
  The decimal digits of Unicode (\<^verbatim>\<open>str.isdecimal\<close>, the class \<^verbatim>\<open>\d\<close> of a regular expression
  on \<^verbatim>\<open>str\<close>, the characters \<^verbatim>\<open>int\<close> reads as digits) come in runs of ten, from the digit
  zero of a script to its digit nine. \<open>zero_digits\<close> lists the code point of every digit
  zero (Unicode 14.0, the character database of CPython 3.11): U+0030 for \<^verbatim>\<open>0\<close> to \<^verbatim>\<open>9\<close>,
  U+0660 for the Arabic-Indic digits, and so on.
\<close>

definition zero_digits :: "int list" where
  "zero_digits =
     [0x30, 0x660, 0x6F0, 0x7C0, 0x966, 0x9E6, 0xA66, 0xAE6, 0xB66, 0xBE6, 0xC66, 0xCE6,
      0xD66, 0xDE6, 0xE50, 0xED0, 0xF20, 0x1040, 0x1090, 0x17E0, 0x1810, 0x1946, 0x19D0,
      0x1A80, 0x1A90, 0x1B50, 0x1BB0, 0x1C40, 0x1C50, 0xA620, 0xA8D0, 0xA900, 0xA9D0, 0xA9F0,
      0xAA50, 0xABF0, 0xFF10, 0x104A0, 0x10D30, 0x11066, 0x110F0, 0x11136, 0x111D0, 0x112F0,
      0x11450, 0x114D0, 0x11650, 0x116C0, 0x11730, 0x118E0, 0x11950, 0x11C50, 0x11D50,
      0x11DA0, 0x16A60, 0x16AC0, 0x16B50, 0x1D7CE, 0x1D7D8, 0x1D7E2, 0x1D7EC, 0x1D7F6,
      0x1E140, 0x1E2F0, 0x1E950, 0x1FBF0]"

definition is_decimal :: "int \<Rightarrow> bool" where
  "is_decimal c \<longleftrightarrow> list_ex (\<lambda>z. z \<le> c \<and> c < z + 10) zero_digits"

text \<open>The value of a decimal digit: its distance from the digit zero of its run.\<close>

definition digit_value :: "int \<Rightarrow> int" where
  "digit_value c =
     (case List.find (\<lambda>z. z \<le> c \<and> c < z + 10) zero_digits of
        Some z \<Rightarrow> c - z
      | None \<Rightarrow> 0)"

text \<open>
  \<^verbatim>\<open>str.isdigit\<close> holds of a character that is a decimal digit or one of the other
  characters of Unicode that stand for a digit (Numeric\_Type=Digit): the superscript
  digits U+00B2, U+00B3 and U+00B9, the subscript and the circled digits, and so on, listed
  by their ranges.
\<close>

definition other_digits :: "(int \<times> int) list" where
  "other_digits =
     [(0xB2, 0xB3), (0xB9, 0xB9), (0x1369, 0x1371), (0x19DA, 0x19DA), (0x2070, 0x2070),
      (0x2074, 0x2079), (0x2080, 0x2089), (0x2460, 0x2468), (0x2474, 0x247C),
      (0x2488, 0x2490), (0x24EA, 0x24EA), (0x24F5, 0x24FD), (0x24FF, 0x24FF),
      (0x2776, 0x277E), (0x2780, 0x2788), (0x278A, 0x2792), (0x10A40, 0x10A43),
      (0x10E60, 0x10E68), (0x11052, 0x1105A), (0x1F100, 0x1F10A)]"

definition chr_isdigit :: "int \<Rightarrow> bool" where
  "chr_isdigit c \<longleftrightarrow> is_decimal c \<or> list_ex (\<lambda>(lo, hi). lo \<le> c \<and> c \<le> hi) other_digits"

text \<open>\<^verbatim>\<open>s.isdigit()\<close>: every character is a digit and there is at least one character.\<close>

definition isdigit :: "str \<Rightarrow> bool" where
  "isdigit s \<longleftrightarrow> s \<noteq> [] \<and> list_all chr_isdigit s"

section \<open>ValidatedField: Phone\<close>

text \<open>
  \<^verbatim>\<open>
  class Phone(Field):
      def __init__(self, value):
          if not (value.isdigit() and len(value) == 10):
              raise ValueError('The number must consist of numbers only and 10 digits!')
          super().__init__(value)
  \<close>
  No method of the program assigns to the \<^verbatim>\<open>value\<close> of a \<^verbatim>\<open>Field\<close> after its
  construction, so a field object is modelled by the value it holds.
\<close>

definition Phone :: "str \<Rightarrow> error + str" where
  "Phone value = (if \<not> (isdigit value \<and> length value = 10) then Inl InvalidFormat else Inr value)"

section \<open>Calendar dates: the part of \<^verbatim>\<open>datetime\<close> the program uses\<close>

text \<open>
  A \<^verbatim>\<open>datetime.date\<close> is a year, a month and a day of the proleptic Gregorian calendar,
  with \<^verbatim>\<open>MINYEAR = 1\<close> and \<^verbatim>\<open>MAXYEAR = 9999\<close>. The functions below follow the library's
  reference implementation (\<^verbatim>\<open>_is_leap\<close>, \<^verbatim>\<open>_days_in_month\<close>, \<^verbatim>\<open>_days_before_year\<close>,
  \<^verbatim>\<open>_days_before_month\<close>, \<^verbatim>\<open>_ymd2ord\<close>).
\<close>

record date =
  year :: int
  month :: int
  day :: int

definition is_leap :: "int \<Rightarrow> bool" where
  "is_leap y \<longleftrightarrow> y mod 4 = 0 \<and> (y mod 100 \<noteq> 0 \<or> y mod 400 = 0)"

definition days_in_month :: "int \<Rightarrow> int \<Rightarrow> int" where
  "days_in_month y m =
     (if m = 2 then (if is_leap y then 29 else 28)
      else if m = 4 \<or> m = 6 \<or> m = 9 \<or> m = 11 then 30 else 31)"

definition days_before_year :: "int \<Rightarrow> int" where
  "days_before_year y' = (let y = y' - 1 in y * 365 + y div 4 - y div 100 + y div 400)"

definition days_before_month :: "int \<Rightarrow> int \<Rightarrow> int" where
  "days_before_month y m =
     (if m = 1 then 0 else if m = 2 then 31 else if m = 3 then 59 else if m = 4 then 90
      else if m = 5 then 120 else if m = 6 then 151 else if m = 7 then 181
      else if m = 8 then 212 else if m = 9 then 243 else if m = 10 then 273
      else if m = 11 then 304 else 334)
     + (if m > 2 \<and> is_leap y then 1 else 0)"

text \<open>\<^verbatim>\<open>d.toordinal()\<close>: 1 for 01.01.0001.\<close>

definition toordinal :: "date \<Rightarrow> int" where
  "toordinal d = days_before_year (year d) + days_before_month (year d) (month d) + day d"

definition MAXORDINAL :: int where
  "MAXORDINAL = 3652059"

definition valid_date :: "date \<Rightarrow> bool" where
  "valid_date d \<longleftrightarrow>
     1 \<le> year d \<and> year d \<le> 9999 \<and> 1 \<le> month d \<and> month d \<le> 12 \<and>
     1 \<le> day d \<and> day d \<le> days_in_month (year d) (month d)"

text \<open>\<^verbatim>\<open>date(y, m, d)\<close>: the constructor raises \<^verbatim>\<open>ValueError\<close> for a date that does not exist.\<close>

definition make_date :: "int \<Rightarrow> int \<Rightarrow> int \<Rightarrow> error + date" where
  "make_date y m d =
     (let r = \<lparr>year = y, month = m, day = d\<rparr> in if valid_date r then Inr r else Inl ValueError)"

text \<open>\<^verbatim>\<open>d.replace(year=y)\<close> constructs the date anew, so it raises like the constructor.\<close>

definition replace_year :: "date \<Rightarrow> int \<Rightarrow> error + date" where
  "replace_year d y = make_date y (month d) (day d)"

text \<open>\<^verbatim>\<open>d.weekday()\<close>: Monday is 0, Sunday is 6.\<close>

definition weekday :: "date \<Rightarrow> int" where
  "weekday d = (toordinal d + 6) mod 7"

text \<open>\<^verbatim>\<open>a < b\<close> compares year, month and day in this order.\<close>

definition date_less :: "date \<Rightarrow> date \<Rightarrow> bool" where
  "date_less a b \<longleftrightarrow>
     year a < year b \<or> (year a = year b \<and> (month a < month b \<or> (month a = month b \<and> day a < day b)))"

text \<open>\<^verbatim>\<open>(a - b).days\<close>\<close>

definition days_between :: "date \<Rightarrow> date \<Rightarrow> int" where
  "days_between a b = toordinal a - toordinal b"

text \<open>
  \<^verbatim>\<open>d + timedelta(days=n)\<close> is the date whose ordinal is \<^verbatim>\<open>d.toordinal() + n\<close>, and
  \<^verbatim>\<open>OverflowError\<close> when that ordinal is not one of \<^verbatim>\<open>1 .. date.max.toordinal()\<close>. The date
  is reached here by stepping through the calendar one day at a time.
\<close>

definition next_day :: "date \<Rightarrow> date" where
  "next_day d =
     (if day d < days_in_month (year d) (month d) then d\<lparr>day := day d + 1\<rparr>
      else if month d < 12 then d\<lparr>month := month d + 1, day := 1\<rparr>
      else \<lparr>year = year d + 1, month = 1, day = 1\<rparr>)"

definition prev_day :: "date \<Rightarrow> date" where
  "prev_day d =
     (if 1 < day d then d\<lparr>day := day d - 1\<rparr>
      else if 1 < month d then d\<lparr>month := month d - 1, day := days_in_month (year d) (month d - 1)\<rparr>
      else \<lparr>year = year d - 1, month = 12, day = 31\<rparr>)"

definition shift_days :: "date \<Rightarrow> int \<Rightarrow> date" where
  "shift_days d n = (if 0 \<le> n then (next_day ^^ nat n) d else (prev_day ^^ nat (- n)) d)"

definition date_add_days :: "date \<Rightarrow> int \<Rightarrow> error + date" where
  "date_add_days d n =
     (let ord = toordinal d + n
      in if 0 < ord \<and> ord \<le> MAXORDINAL then Inr (shift_days d n) else Inl OverflowError)"

subsection \<open>\<^verbatim>\<open>strftime('%d.%m.%Y')\<close>\<close>

text \<open>
  \<^verbatim>\<open>%d\<close> and \<^verbatim>\<open>%m\<close> write day and month with two digits. \<^verbatim>\<open>%Y\<close> writes the year as the C
  library does, in decimal without padding: \<^verbatim>\<open>date(999, 6, 3).strftime('%d.%m.%Y')\<close> is
  \<^verbatim>\<open>'03.06.999'\<close>. The year of a date is between 1 and 9999.
\<close>

definition digit_char :: "int \<Rightarrow> int" where
  "digit_char n = 48 + n mod 10"

definition two_digits :: "int \<Rightarrow> str" where
  "two_digits n = [digit_char (n div 10), digit_char n]"

definition four_digits :: "int \<Rightarrow> str" where
  "four_digits n = [digit_char (n div 1000), digit_char (n div 100), digit_char (n div 10), digit_char n]"

definition year_digits :: "int \<Rightarrow> str" where
  "year_digits n =
     (if n < 10 then [digit_char n]
      else if n < 100 then [digit_char (n div 10), digit_char n]
      else if n < 1000 then [digit_char (n div 100), digit_char (n div 10), digit_char n]
      else four_digits n)"

definition strftime_dmY :: "date \<Rightarrow> str" where
  "strftime_dmY d = two_digits (day d) @ lit ''.'' @ two_digits (month d) @ lit ''.'' @ year_digits (year d)"

subsection \<open>\<^verbatim>\<open>datetime.strptime(s, '%d.%m.%Y').date()\<close>\<close>

text \<open>
  The library turns the format into the regular expression
  \<^verbatim>\<open>(?P<d>3[0-1]|[1-2]\d|0[1-9]|[1-9]| [1-9])\.(?P<m>1[0-2]|0[1-9]|[1-9])\.(?P<Y>\d\d\d\d)\<close>,
  matches it at the start of the string, raises \<^verbatim>\<open>ValueError\<close> if it does not match or
  if the match does not end where the string ends, converts the three groups with
  \<^verbatim>\<open>int\<close> and calls the \<^verbatim>\<open>date\<close> constructor on them.

  A character class is a predicate on code points: \<open>chars\<close> for the characters listed,
  \<open>is_decimal\<close> for \<^verbatim>\<open>\d\<close>, which on a \<^verbatim>\<open>str\<close> is every decimal digit of Unicode. An
  alternative is a sequence of character classes. \<open>match_seq\<close> matches one alternative at
  the start of a string and gives the matched text and the rest; \<open>match_group\<close> gives the
  matches of a group's alternatives in the order in which a backtracking matcher tries
  them.
\<close>

definition chars :: "string \<Rightarrow> int \<Rightarrow> bool" where
  "chars s c \<longleftrightarrow> c \<in> set (lit s)"

fun match_seq :: "(int \<Rightarrow> bool) list \<Rightarrow> str \<Rightarrow> (str \<times> str) option" where
  "match_seq [] s = Some ([], s)"
| "match_seq (cls # rest) [] = None"
| "match_seq (cls # rest) (c # s) =
     (if cls c
      then (case match_seq rest s of None \<Rightarrow> None | Some (m, r) \<Rightarrow> Some (c # m, r))
      else None)"

definition match_group :: "(int \<Rightarrow> bool) list list \<Rightarrow> str \<Rightarrow> (str \<times> str) list" where
  "match_group alts s = List.map_filter (\<lambda>alt. match_seq alt s) alts"

definition re_d :: "(int \<Rightarrow> bool) list list" where
  "re_d = [[chars ''3'', chars ''01''], [chars ''12'', is_decimal], [chars ''0'', chars ''123456789''],
           [chars ''123456789''], [chars '' '', chars ''123456789'']]"

definition re_m :: "(int \<Rightarrow> bool) list list" where
  "re_m = [[chars ''1'', chars ''012''], [chars ''0'', chars ''123456789''], [chars ''123456789'']]"

definition re_Y :: "(int \<Rightarrow> bool) list list" where
  "re_Y = [[is_decimal, is_decimal, is_decimal, is_decimal]]"

definition re_dot :: "(int \<Rightarrow> bool) list list" where
  "re_dot = [[chars ''.'']]"

text \<open>All ways to match the whole expression, the one the matcher finds first at the head.\<close>

definition re_matches :: "str \<Rightarrow> (str \<times> str \<times> str \<times> str) list" where
  "re_matches s =
     concat (map (\<lambda>(d, r1).
       concat (map (\<lambda>(dot1, r2).
         concat (map (\<lambda>(m, r3).
           concat (map (\<lambda>(dot2, r4).
             map (\<lambda>(y, r5). (d, m, y, r5)) (match_group re_Y r4))
           (match_group re_dot r3)))
         (match_group re_m r2)))
       (match_group re_dot r1)))
     (match_group re_d s))"

text \<open>
  \<^verbatim>\<open>int(text)\<close> on the text of a group: white space around the digits is ignored, the
  digits may be decimal digits of any script, and the groups of this expression hold
  decimal digits after at most one leading space (U+0020).
\<close>

definition int_of_group :: "str \<Rightarrow> int" where
  "int_of_group s = foldl (\<lambda>n c. 10 * n + digit_value c) 0 (dropWhile (\<lambda>c. c = 32) s)"

definition strptime_dmY :: "str \<Rightarrow> error + date" where
  "strptime_dmY s =
     (case re_matches s of
        [] \<Rightarrow> Inl ValueError
      | (d, m, y, rest) # _ \<Rightarrow>
          if rest \<noteq> [] then Inl ValueError
          else make_date (int_of_group y) (int_of_group m) (int_of_group d))"

section \<open>ValidatedField: Birthday\<close>

text \<open>
  \<^verbatim>\<open>
  class Birthday(Field):
      def __init__(self, value):
          try:
              datetime.strptime(value, "%d.%m.%Y")
          except ValueError:
              raise ValueError("Invalid date format. Use DD.MM.YYYY")
          super().__init__(value)
  \<close>
  The parsed date is dropped: the field keeps the string it was given.
\<close>

definition Birthday :: "str \<Rightarrow> error + str" where
  "Birthday value =
     (case strptime_dmY value of
        Inl ValueError \<Rightarrow> Inl InvalidFormat
      | Inl e \<Rightarrow> Inl e
      | Inr parsed \<Rightarrow> Inr value)"

section \<open>ContactRecord\<close>

text \<open>
  \<^verbatim>\<open>
  class Record:
      def __init__(self, name):
          self.name = Name(name)
          self.phones = []
          self.birthday = None
  \<close>
\<close>

record Record =
  name :: str
  phones :: "str list"
  birthday :: "str option"

definition Record_init :: "str \<Rightarrow> Record" where
  "Record_init n = \<lparr>name = n, phones = [], birthday = None\<rparr>"

text \<open>
  \<^verbatim>\<open>
  def add_birthday(self, birthday):
      self.birthday = Birthday(birthday)
  def add_phone(self, phone):
      self.phones.append(Phone(phone))
  \<close>
  The constructor runs before the assignment and before \<^verbatim>\<open>append\<close>.
\<close>

definition add_birthday :: "Record \<Rightarrow> str \<Rightarrow> Record outcome" where
  "add_birthday self b =
     (case Birthday b of
        Inl e \<Rightarrow> Raise e self
      | Inr v \<Rightarrow> Return (self\<lparr>birthday := Some v\<rparr>))"

definition add_phone :: "Record \<Rightarrow> str \<Rightarrow> Record outcome" where
  "add_phone self phone =
     (case Phone phone of
        Inl e \<Rightarrow> Raise e self
      | Inr p \<Rightarrow> Return (self\<lparr>phones := phones self @ [p]\<rparr>))"

text \<open>
  \<^verbatim>\<open>
  def find_phone(self, phone_value):
      result = list(filter(lambda phone: phone.value == phone_value, self.phones))
      return result[0] if len(result) > 0 else None
  \<close>
\<close>

definition find_phone :: "Record \<Rightarrow> str \<Rightarrow> str option" where
  "find_phone self phone_value =
     (let result = filter (\<lambda>phone. phone = phone_value) (phones self)
      in if length result > 0 then Some (hd result) else None)"

text \<open>
  \<^verbatim>\<open>
  def remove_phone(self, phone_value):
      phone_to_remove = self.find_phone(phone_value)
      if phone_to_remove:
          self.phones.remove(phone_to_remove)
  \<close>
  A \<^verbatim>\<open>Phone\<close> object is always true, and \<^verbatim>\<open>list.remove\<close> deletes the first occurrence
  of the object found, which is the first phone holding that value.
\<close>

definition remove_phone :: "Record \<Rightarrow> str \<Rightarrow> Record" where
  "remove_phone self phone_value =
     (case find_phone self phone_value of
        Some phone_to_remove \<Rightarrow> self\<lparr>phones := remove1 phone_to_remove (phones self)\<rparr>
      | None \<Rightarrow> self)"

text \<open>
  \<^verbatim>\<open>
  def edit_phone(self, old_phone_val, new_phone_val):
      phone_to_edit = self.find_phone(old_phone_val)
      if phone_to_edit:
          self.add_phone(new_phone_val)
          self.remove_phone(old_phone_val)
      else:
          raise ValueError('Old number not found!')
  \<close>
\<close>

definition edit_phone :: "Record \<Rightarrow> str \<Rightarrow> str \<Rightarrow> Record outcome" where
  "edit_phone self old_phone_val new_phone_val =
     (case find_phone self old_phone_val of
        Some phone_to_edit \<Rightarrow>
          (case add_phone self new_phone_val of
             Raise e self' \<Rightarrow> Raise e self'
           | Return self' \<Rightarrow> Return (remove_phone self' old_phone_val))
      | None \<Rightarrow> Raise NotFound self)"

section \<open>AddressBook\<close>

text \<open>
  \<^verbatim>\<open>class AddressBook(UserDict)\<close> keeps its records in the dictionary \<^verbatim>\<open>self.data\<close>. A Python
  dictionary iterates in insertion order, assigning to a key it already has keeps the
  key's place, and its keys are distinct: it is modelled by an association list.
  \<^verbatim>\<open>
  def add_record(self, record):
      self.data[record.name.value] = record
  def find(self, name):
      return self.data.get(name, None)
  def delete(self, name):
      if name in self.data:
          del self.data[name]
  \<close>
\<close>

type_synonym AddressBook = "(str \<times> Record) list"

definition add_record :: "AddressBook \<Rightarrow> Record \<Rightarrow> AddressBook" where
  "add_record self record = AList.update (name record) record self"

definition find_record :: "AddressBook \<Rightarrow> str \<Rightarrow> Record option" where
  "find_record self n = map_of self n"

definition delete_record :: "AddressBook \<Rightarrow> str \<Rightarrow> AddressBook" where
  "delete_record self n = (if n \<in> set (map fst self) then AList.delete n self else self)"

text \<open>The invariant of the data model: keys are distinct and each record is stored under its name.\<close>

definition book_inv :: "AddressBook \<Rightarrow> bool" where
  "book_inv self \<longleftrightarrow> distinct (map fst self) \<and> list_all (\<lambda>(k, r). name r = k) self"

subsection \<open>Upcoming birthdays\<close>

text \<open>
  \<^verbatim>\<open>
  def find_next_weekday(self, start_date, weekday):
      days_ahead = weekday - start_date.weekday()
      if days_ahead <= 0:
          days_ahead += 7
      return start_date + timedelta(days=days_ahead)
  \<close>
\<close>

definition find_next_weekday :: "date \<Rightarrow> int \<Rightarrow> error + date" where
  "find_next_weekday start_date wd =
     (let days_ahead = wd - weekday start_date;
          days_ahead = (if days_ahead \<le> 0 then days_ahead + 7 else days_ahead)
      in date_add_days start_date days_ahead)"

text \<open>
  The body of the loop of \<^verbatim>\<open>get_upcoming_birthdays\<close> for a record whose birthday holds
  \<open>value\<close>: what it appends to \<^verbatim>\<open>upcoming_birthdays\<close>, or the exception that leaves it.
  \<^verbatim>\<open>
  birthday_this_year = datetime.strptime(record.birthday.value, '%d.%m.%Y').date().replace(
      year=today.year)
  if birthday_this_year < today:
      birthday_this_year = birthday_this_year.replace(year=today.year + 1)
  if birthday_this_year.weekday() >= 5:
      birthday_this_year = self.find_next_weekday(birthday_this_year, 0)
  if 0 <= (birthday_this_year - today).days <= days:
      upcoming_birthdays.append(
          {"name": record.name.value, "birthday": birthday_this_year.strftime('%d.%m.%Y')})
  \<close>
  The dictionary appended is modelled by the pair of its two values.
\<close>

definition upcoming_entry :: "date \<Rightarrow> int \<Rightarrow> str \<Rightarrow> str \<Rightarrow> error + (str \<times> str) list" where
  "upcoming_entry today days record_name value =
     (case strptime_dmY value of Inl e \<Rightarrow> Inl e | Inr parsed \<Rightarrow>
      case replace_year parsed (year today) of Inl e \<Rightarrow> Inl e | Inr birthday_this_year \<Rightarrow>
      case (if date_less birthday_this_year today
            then replace_year birthday_this_year (year today + 1)
            else Inr birthday_this_year) of Inl e \<Rightarrow> Inl e | Inr birthday_this_year \<Rightarrow>
      case (if weekday birthday_this_year \<ge> 5
            then find_next_weekday birthday_this_year 0
            else Inr birthday_this_year) of Inl e \<Rightarrow> Inl e | Inr birthday_this_year \<Rightarrow>
      if 0 \<le> days_between birthday_this_year today \<and> days_between birthday_this_year today \<le> days
      then Inr [(record_name, strftime_dmY birthday_this_year)]
      else Inr [])"

text \<open>
  \<^verbatim>\<open>
  upcoming_birthdays = []
  today = date.today()
  for record in self.data.values():
      if record.birthday:
          ...
  return upcoming_birthdays
  \<close>
  The system date is a parameter. A \<^verbatim>\<open>Birthday\<close> object is always true, so the test is
  whether the attribute is \<^verbatim>\<open>None\<close>.
\<close>

fun upcoming_loop :: "date \<Rightarrow> int \<Rightarrow> Record list \<Rightarrow> (str \<times> str) list \<Rightarrow> error + (str \<times> str) list" where
  "upcoming_loop today days [] upcoming_birthdays = Inr upcoming_birthdays"
| "upcoming_loop today days (record # records) upcoming_birthdays =
     (case birthday record of
        None \<Rightarrow> upcoming_loop today days records upcoming_birthdays
      | Some value \<Rightarrow>
          (case upcoming_entry today days (name record) value of
             Inl e \<Rightarrow> Inl e
           | Inr appended \<Rightarrow> upcoming_loop today days records (upcoming_birthdays @ appended)))"

definition get_upcoming_birthdays :: "date \<Rightarrow> AddressBook \<Rightarrow> int \<Rightarrow> error + (str \<times> str) list" where
  "get_upcoming_birthdays today self days = upcoming_loop today days (map snd self) []"

section \<open>The heap: objects, references and \<^verbatim>\<open>copy.deepcopy\<close>\<close>

text \<open>
  Records, phone lists, dictionaries and books are mutable objects that the program
  reaches through references. Each kind of object has its own store, indexed by
  addresses; \<open>next_addr\<close> is the first address never handed out. An \<^verbatim>\<open>AddressBook\<close> object
  has the one attribute \<^verbatim>\<open>data\<close>, a reference to a dictionary; the dictionary maps names to
  references to \<^verbatim>\<open>Record\<close> objects; the attribute \<^verbatim>\<open>phones\<close> of a record refers to a
  list object. Field objects are held by value, as before.
\<close>

type_synonym addr = nat

record record_obj =
  ro_name :: str
  ro_phones :: addr
  ro_birthday :: "str option"

record heap =
  books :: "addr \<Rightarrow> addr"
  dicts :: "addr \<Rightarrow> (str \<times> addr) list"
  records :: "addr \<Rightarrow> record_obj"
  lists :: "addr \<Rightarrow> str list"
  next_addr :: addr

text \<open>What a reference to a record, or to a book, shows when it is followed.\<close>

definition load_record :: "heap \<Rightarrow> addr \<Rightarrow> Record" where
  "load_record h a =
     \<lparr>name = ro_name (records h a), phones = lists h (ro_phones (records h a)),
      birthday = ro_birthday (records h a)\<rparr>"

definition book_view :: "heap \<Rightarrow> addr \<Rightarrow> AddressBook" where
  "book_view h b = map (\<lambda>(k, a). (k, load_record h a)) (dicts h (books h b))"

text \<open>
  The methods of \<^verbatim>\<open>Record\<close> change the list object behind \<^verbatim>\<open>self.phones\<close> in place
  (\<^verbatim>\<open>append\<close>, \<^verbatim>\<open>remove\<close>) and rebind \<^verbatim>\<open>self.birthday\<close>; none rebinds \<^verbatim>\<open>self.name\<close> or
  \<^verbatim>\<open>self.phones\<close>. A method call on the record at an address is the method on what the
  address shows, written back to these two places.
\<close>

definition store_record :: "heap \<Rightarrow> addr \<Rightarrow> Record \<Rightarrow> heap" where
  "store_record h a r =
     h\<lparr>lists := (lists h)(ro_phones (records h a) := phones r),
       records := (records h)(a := (records h a)\<lparr>ro_birthday := birthday r\<rparr>)\<rparr>"

definition call_method :: "(Record \<Rightarrow> Record outcome) \<Rightarrow> heap \<Rightarrow> addr \<Rightarrow> heap outcome" where
  "call_method method h a =
     (case method (load_record h a) of
        Return r \<Rightarrow> Return (store_record h a r)
      | Raise e r \<Rightarrow> Raise e (store_record h a r))"

text \<open>
  \<^verbatim>\<open>copy.deepcopy(x, memo)\<close> returns \<^verbatim>\<open>memo[id(x)]\<close> when \<^verbatim>\<open>x\<close> was copied before. Only a
  record or a list can be reached twice from a book (a record under two keys, a list from
  two records), so the memo is kept for these two kinds of object.
\<close>

record memo =
  memo_records :: "addr \<rightharpoonup> addr"
  memo_lists :: "addr \<rightharpoonup> addr"

definition empty_memo :: memo where
  "empty_memo = \<lparr>memo_records = Map.empty, memo_lists = Map.empty\<rparr>"

text \<open>A list: a new list object with a deep copy of each element (a \<^verbatim>\<open>Phone\<close>, held by value).\<close>

definition deepcopy_list :: "heap \<Rightarrow> memo \<Rightarrow> addr \<Rightarrow> heap \<times> memo \<times> addr" where
  "deepcopy_list h m x =
     (case memo_lists m x of
        Some y \<Rightarrow> (h, m, y)
      | None \<Rightarrow>
          let y = next_addr h
          in (h\<lparr>lists := (lists h)(y := lists h x), next_addr := y + 1\<rparr>,
              m\<lparr>memo_lists := (memo_lists m)(x \<mapsto> y)\<rparr>, y))"

text \<open>
  \<^verbatim>\<open>
  def __deepcopy__(self, memodict):
      cls = self.__class__
      new_record = cls.__new__(cls)
      memodict[id(self)] = new_record
      for key, value in self.__dict__.items():
          setattr(new_record, key, copy.deepcopy(value, memodict))
      return new_record
  \<close>
\<close>

definition deepcopy_record :: "heap \<Rightarrow> memo \<Rightarrow> addr \<Rightarrow> heap \<times> memo \<times> addr" where
  "deepcopy_record h m x =
     (case memo_records m x of
        Some y \<Rightarrow> (h, m, y)
      | None \<Rightarrow>
          let new_record = next_addr h;
              h1 = h\<lparr>next_addr := new_record + 1\<rparr>;
              m1 = m\<lparr>memo_records := (memo_records m)(x \<mapsto> new_record)\<rparr>;
              (h2, m2, new_phones) = deepcopy_list h1 m1 (ro_phones (records h1 x))
          in (h2\<lparr>records := (records h2)(new_record :=
                    \<lparr>ro_name = ro_name (records h2 x), ro_phones = new_phones,
                     ro_birthday = ro_birthday (records h2 x)\<rparr>)\<rparr>,
              m2, new_record))"

text \<open>A dictionary: a new dictionary, filled key by key with deep copies of the values.\<close>

fun deepcopy_items :: "heap \<Rightarrow> memo \<Rightarrow> (str \<times> addr) list \<Rightarrow> heap \<times> memo \<times> (str \<times> addr) list" where
  "deepcopy_items h m [] = (h, m, [])"
| "deepcopy_items h m ((k, v) # kvs) =
     (let (h1, m1, v') = deepcopy_record h m v;
          (h2, m2, kvs') = deepcopy_items h1 m1 kvs
      in (h2, m2, (k, v') # kvs'))"

definition deepcopy_dict :: "heap \<Rightarrow> memo \<Rightarrow> addr \<Rightarrow> heap \<times> memo \<times> addr" where
  "deepcopy_dict h m x =
     (let y = next_addr h;
          h1 = h\<lparr>dicts := (dicts h)(y := []), next_addr := y + 1\<rparr>;
          (h2, m2, items) = deepcopy_items h1 m (dicts h1 x)
      in (h2\<lparr>dicts := (dicts h2)(y := items)\<rparr>, m2, y))"

text \<open>
  \<^verbatim>\<open>
  def __deepcopy__(self, memodict):
      cls = self.__class__
      new_book = cls.__new__(cls)
      memodict[id(self)] = new_book
      for key, value in self.__dict__.items():
          setattr(new_book, key, copy.deepcopy(value, memodict))
      return new_book
  \<close>
  \<open>deepcopy_book\<close> is \<^verbatim>\<open>copy.deepcopy(book)\<close>, which starts from an empty memo.
\<close>

definition deepcopy_book :: "heap \<Rightarrow> addr \<Rightarrow> heap \<times> addr" where
  "deepcopy_book h self =
     (let new_book = next_addr h;
          h1 = h\<lparr>next_addr := new_book + 1\<rparr>;
          (h2, m2, new_data) = deepcopy_dict h1 empty_memo (books h1 self)
      in (h2\<lparr>books := (books h2)(new_book := new_data)\<rparr>, new_book))"

text \<open>
  In a well-formed heap every object a book reaches has been allocated. The addresses of
  the records of a book and of their phone lists are its mutable sub-state below the
  dictionary.
\<close>

definition record_addrs :: "heap \<Rightarrow> addr \<Rightarrow> addr list" where
  "record_addrs h b = map snd (dicts h (books h b))"

definition list_addrs :: "heap \<Rightarrow> addr \<Rightarrow> addr list" where
  "list_addrs h b = map (\<lambda>a. ro_phones (records h a)) (record_addrs h b)"

definition wf_book :: "heap \<Rightarrow> addr \<Rightarrow> bool" where
  "wf_book h b \<longleftrightarrow>
     b < next_addr h \<and> books h b < next_addr h \<and>
     list_all (\<lambda>a. a < next_addr h) (record_addrs h b) \<and>
     list_all (\<lambda>a. a < next_addr h) (list_addrs h b)"

text \<open>
  A heap with one book: the book at address 0, its dictionary at 1, the record of Alice
  at 2 and her phone list, holding one phone, at 3.
\<close>

definition example_heap :: heap where
  "example_heap =
     \<lparr>books = (\<lambda>a. 0)(0 := 1),
      dicts = (\<lambda>a. [])(1 := [(lit ''Alice'', 2)]),
      records = (\<lambda>a. \<lparr>ro_name = [], ro_phones = 0, ro_birthday = None\<rparr>)
                  (2 := \<lparr>ro_name = lit ''Alice'', ro_phones = 3, ro_birthday = None\<rparr>),
      lists = (\<lambda>a. [])(3 := [lit ''0501234567'']),
      next_addr = 4\<rparr>"

text \<open>
  Two relations used to follow a deep copy. \<open>heap_extends h h'\<close>: the heap \<open>h'\<close> has every
  object of \<open>h\<close> unchanged, and perhaps more objects. \<open>memo_fresh n h m\<close>: every copy the
  memo knows was allocated at or after address \<open>n\<close>, and so was the phone list of every
  record it knows.
\<close>

definition heap_extends :: "heap \<Rightarrow> heap \<Rightarrow> bool" where
  "heap_extends h h' \<longleftrightarrow>
     next_addr h \<le> next_addr h' \<and>
     (\<forall>a. a < next_addr h \<longrightarrow>
        books h' a = books h a \<and> dicts h' a = dicts h a \<and>
        records h' a = records h a \<and> lists h' a = lists h a)"

definition memo_fresh :: "addr \<Rightarrow> heap \<Rightarrow> memo \<Rightarrow> bool" where
  "memo_fresh n h m \<longleftrightarrow>
     n \<le> next_addr h \<and>
     (\<forall>x y. memo_lists m x = Some y \<longrightarrow> n \<le> y \<and> y < next_addr h) \<and>
     (\<forall>x y. memo_records m x = Some y \<longrightarrow>
        n \<le> y \<and> y < next_addr h \<and>
        n \<le> ro_phones (records h y) \<and> ro_phones (records h y) < next_addr h)"

text \<open>\<open>memo_copies h0 h m\<close>: every copy the memo knows shows in \<open>h\<close> what its original showed in \<open>h0\<close>.\<close>

definition memo_copies :: "heap \<Rightarrow> heap \<Rightarrow> memo \<Rightarrow> bool" where
  "memo_copies h0 h m \<longleftrightarrow>
     (\<forall>x y. memo_lists m x = Some y \<longrightarrow> lists h y = lists h0 x) \<and>
     (\<forall>x y. memo_records m x = Some y \<longrightarrow> load_record h y = load_record h0 x)"

section \<open>The specification's reading of the operations\<close>

subsection \<open>Field formats\<close>

text \<open>"All decimal digits": every character is one of \<^verbatim>\<open>0\<close> to \<^verbatim>\<open>9\<close>.\<close>

definition decimal_digits :: "str \<Rightarrow> bool" where
  "decimal_digits s \<longleftrightarrow> list_all (\<lambda>c. 48 \<le> c \<and> c \<le> 57) s"

text \<open>The number that a string of decimal digits writes.\<close>

definition number :: "str \<Rightarrow> int" where
  "number s = foldl (\<lambda>n c. 10 * n + (c - 48)) 0 s"

text \<open>
  The fixed pattern \<^verbatim>\<open>DD.MM.YYYY\<close>: two decimal digits, a dot, two decimal digits, a dot and
  four decimal digits, which are the day, the month and the year of a date of the calendar.
\<close>

definition ddmmyyyy_date :: "str \<Rightarrow> date option" where
  "ddmmyyyy_date s =
     (let dd = take 2 s; mm = take 2 (drop 3 s); yyyy = drop 6 s;
          r = \<lparr>year = number yyyy, month = number mm, day = number dd\<rparr>
      in if length s = 10 \<and> take 1 (drop 2 s) = lit ''.'' \<and> take 1 (drop 5 s) = lit ''.'' \<and>
            decimal_digits dd \<and> decimal_digits mm \<and> decimal_digits yyyy \<and> valid_date r
         then Some r else None)"

text \<open>A date formatted as \<^verbatim>\<open>DD.MM.YYYY\<close>.\<close>

definition format_ddmmyyyy :: "date \<Rightarrow> str" where
  "format_ddmmyyyy d = two_digits (day d) @ lit ''.'' @ two_digits (month d) @ lit ''.'' @ four_digits (year d)"

subsection \<open>Upcoming birthdays\<close>

text \<open>
  Re-anchor: replace the year of a date, keeping month and day; there is no such date
  when 29 February is moved to a year that is not a leap year, or the year is out of range.
\<close>

definition reanchor :: "date \<Rightarrow> int \<Rightarrow> date option" where
  "reanchor d y =
     (let r = \<lparr>year = y, month = month d, day = day d\<rparr> in if valid_date r then Some r else None)"

text \<open>Roll-forward: the first Monday after the date, at the least positive offset.\<close>

definition roll_forward :: "date \<Rightarrow> date" where
  "roll_forward d =
     (case List.find (\<lambda>k. weekday (shift_days d k) = 0) [1..7] of
        Some k \<Rightarrow> shift_days d k
      | None \<Rightarrow> d)"

text \<open>Steps 1 to 3 of the algorithm: the candidate date of a birthday.\<close>

definition candidate :: "date \<Rightarrow> date \<Rightarrow> date option" where
  "candidate today born =
     (case reanchor born (year today) of
        None \<Rightarrow> None
      | Some c \<Rightarrow>
          (case (if date_less c today then reanchor born (year today + 1) else Some c) of
             None \<Rightarrow> None
           | Some c \<Rightarrow> Some (if weekday c = 5 \<or> weekday c = 6 then roll_forward c else c)))"

text \<open>The date a stored birthday stands for.\<close>

definition born_on :: "str \<Rightarrow> date option" where
  "born_on value = (case strptime_dmY value of Inl e \<Rightarrow> None | Inr d \<Rightarrow> Some d)"

text \<open>
  The records that have a birthday, in the order of the book, each with its candidate;
  the book can be re-anchored if each of them has one.
\<close>

definition with_birthday :: "AddressBook \<Rightarrow> (str \<times> str) list" where
  "with_birthday book =
     List.map_filter (\<lambda>(k, r). case birthday r of None \<Rightarrow> None | Some b \<Rightarrow> Some (name r, b)) book"

definition candidates :: "date \<Rightarrow> AddressBook \<Rightarrow> (str \<times> date option) list" where
  "candidates today book =
     map (\<lambda>(n, b). (n, Option.bind (born_on b) (candidate today))) (with_birthday book)"

definition reanchorable :: "date \<Rightarrow> AddressBook \<Rightarrow> bool" where
  "reanchorable today book \<longleftrightarrow> list_all (\<lambda>(n, c). c \<noteq> None) (candidates today book)"

text \<open>
  Steps 4 and 5: the pairs of the records whose candidate lies in the window, the date
  formatted as \<^verbatim>\<open>DD.MM.YYYY\<close>.
\<close>

definition in_window :: "date \<Rightarrow> int \<Rightarrow> date \<Rightarrow> bool" where
  "in_window today days_ahead c \<longleftrightarrow> 0 \<le> days_between c today \<and> days_between c today \<le> days_ahead"

definition upcoming_pairs :: "date \<Rightarrow> AddressBook \<Rightarrow> int \<Rightarrow> (str \<times> str) list" where
  "upcoming_pairs today book days_ahead =
     List.map_filter
       (\<lambda>(n, c). case c of
            None \<Rightarrow> None
          | Some c \<Rightarrow> if in_window today days_ahead c then Some (n, format_ddmmyyyy c) else None)
       (candidates today book)"

text \<open>
  Every birthday stored in the book is a date other than 29 February (the stored strings
  having passed \<^verbatim>\<open>Birthday\<close>, they parse).
\<close>

definition no_leap_day :: "AddressBook \<Rightarrow> bool" where
  "no_leap_day book \<longleftrightarrow>
     list_all (\<lambda>(n, b). case born_on b of None \<Rightarrow> False | Some d \<Rightarrow> \<not> (month d = 2 \<and> day d = 29))
       (with_birthday book)"

section \<open>Properties of the fields and of a record\<close>

lemma find_phone_None: "find_phone r v = None \<longleftrightarrow> v \<notin> set (phones r)"
  by (auto simp: find_phone_def Let_def filter_empty_conv)

lemma find_phone_Some: "v \<in> set (phones r) \<Longrightarrow> find_phone r v = Some v"
proof -
  assume a: "v \<in> set (phones r)"
  then have ne: "filter (\<lambda>phone. phone = v) (phones r) \<noteq> []"
    by (auto simp: filter_empty_conv)
  then have "hd (filter (\<lambda>phone. phone = v) (phones r)) \<in> set (filter (\<lambda>phone. phone = v) (phones r))"
    by (rule hd_in_set)
  then have "hd (filter (\<lambda>phone. phone = v) (phones r)) = v" by simp
  with ne show ?thesis by (simp add: find_phone_def Let_def)
qed

text \<open>
  Claim C2. \<^verbatim>\<open>Phone\<close> is to refuse every string that is not made of exactly ten decimal
  digits, and its own message asks for "numbers only and 10 digits". The test it applies
  is \<^verbatim>\<open>str.isdigit\<close>, which also holds of digit characters that are not decimal digits: the
  string of ten characters U+00B2 (superscript two) has length 10, none of its characters
  is a decimal digit, and \<^verbatim>\<open>Phone\<close> accepts and stores it. A number of ten decimal digits is
  accepted and kept as it is, one of nine digits is refused.
\<close>

theorem Phone_accepts_superscript_digits:
  "length [0xB2, 0xB2, 0xB2, 0xB2, 0xB2, 0xB2, 0xB2, 0xB2, 0xB2, 0xB2 :: int] = 10 \<and>
   \<not> decimal_digits [0xB2, 0xB2, 0xB2, 0xB2, 0xB2, 0xB2, 0xB2, 0xB2, 0xB2, 0xB2] \<and>
   Phone [0xB2, 0xB2, 0xB2, 0xB2, 0xB2, 0xB2, 0xB2, 0xB2, 0xB2, 0xB2]
     = Inr [0xB2, 0xB2, 0xB2, 0xB2, 0xB2, 0xB2, 0xB2, 0xB2, 0xB2, 0xB2] \<and>
   decimal_digits (lit ''0501234567'') \<and>
   Phone (lit ''0501234567'') = Inr (lit ''0501234567'') \<and>
   Phone (lit ''050123456'') = Inl InvalidFormat"
  by code_simp

text \<open>
  Claim C4, as the code has it. For a record that does not hold the valid phone value
  \<open>v\<close> yet, \<^verbatim>\<open>add_phone(v)\<close> followed by \<^verbatim>\<open>remove_phone(v)\<close> gives back the record as it
  was, and \<^verbatim>\<open>find_phone(v)\<close> then returns \<^verbatim>\<open>None\<close>.
\<close>

theorem add_remove_find_absent:
  assumes "Phone v = Inr v" and "v \<notin> set (phones r)"
  shows "add_phone r v = Return (r\<lparr>phones := phones r @ [v]\<rparr>) \<and>
         remove_phone (r\<lparr>phones := phones r @ [v]\<rparr>) v = r \<and>
         find_phone (remove_phone (r\<lparr>phones := phones r @ [v]\<rparr>) v) v = None"
proof -
  let ?r1 = "r\<lparr>phones := phones r @ [v]\<rparr>"
  have a: "add_phone r v = Return ?r1" using assms(1) by (simp add: add_phone_def)
  have f: "find_phone ?r1 v = Some v" by (rule find_phone_Some) simp
  have "remove1 v (phones r @ [v]) = phones r" using assms(2) by (simp add: remove1_append)
  then have rm: "remove_phone ?r1 v = r" using f by (simp add: remove_phone_def)
  have "find_phone r v = None" using assms(2) by (simp add: find_phone_None)
  with a rm show ?thesis by simp
qed

text \<open>The property on a freshly created record.\<close>

theorem add_remove_find_absent_witness:
  "Phone (lit ''0501234567'') = Inr (lit ''0501234567'') \<and>
   (lit ''0501234567'') \<notin> set (phones (Record_init (lit ''Alice''))) \<and>
   add_phone (Record_init (lit ''Alice'')) (lit ''0501234567'')
     = Return ((Record_init (lit ''Alice''))\<lparr>phones := phones (Record_init (lit ''Alice'')) @ [(lit ''0501234567'')]\<rparr>) \<and>
   find_phone (remove_phone ((Record_init (lit ''Alice''))\<lparr>phones := phones (Record_init (lit ''Alice'')) @ [(lit ''0501234567'')]\<rparr>)
      (lit ''0501234567'')) (lit ''0501234567'') = None"
proof -
  have p: "Phone (lit ''0501234567'') = Inr (lit ''0501234567'')"
    by code_simp
  have n: "(lit ''0501234567'') \<notin> set (phones (Record_init (lit ''Alice'')))"
    by (simp add: Record_init_def)
  show ?thesis using add_remove_find_absent [OF p n] p n by blast
qed

text \<open>
  Without the condition the claim fails: phones may repeat, and \<^verbatim>\<open>remove_phone\<close> deletes
  one occurrence only. On a record that already holds the value, adding and removing it
  leaves the earlier occurrence in the list.
\<close>

theorem add_remove_duplicate_counterexample:
  "Phone (lit ''0501234567'') = Inr (lit ''0501234567'') \<and>
   add_phone \<lparr>name = (lit ''Alice''), phones = [(lit ''0501234567'')], birthday = None\<rparr> (lit ''0501234567'')
     = Return \<lparr>name = (lit ''Alice''), phones = [(lit ''0501234567''), (lit ''0501234567'')], birthday = None\<rparr> \<and>
   remove_phone \<lparr>name = (lit ''Alice''), phones = [(lit ''0501234567''), (lit ''0501234567'')], birthday = None\<rparr> (lit ''0501234567'')
     = \<lparr>name = (lit ''Alice''), phones = [(lit ''0501234567'')], birthday = None\<rparr> \<and>
   find_phone \<lparr>name = (lit ''Alice''), phones = [(lit ''0501234567'')], birthday = None\<rparr> (lit ''0501234567'')
     = Some (lit ''0501234567'')"
  by code_simp

text \<open>
  Claim C5. \<^verbatim>\<open>edit_phone(old, new)\<close> on a record with no phone equal to \<open>old\<close> raises
  \<open>NotFound\<close> and leaves the record unchanged; when a phone equal to \<open>old\<close> exists and
  \<open>new\<close> is valid, the new value is appended and then the first phone equal to \<open>old\<close>
  is removed.
\<close>

theorem edit_phone_contract:
  "(old \<notin> set (phones r) \<longrightarrow> edit_phone r old new = Raise NotFound r) \<and>
   (old \<in> set (phones r) \<and> Phone new = Inr new \<longrightarrow>
      edit_phone r old new = Return (r\<lparr>phones := remove1 old (phones r @ [new])\<rparr>))"
proof (intro conjI impI)
  assume "old \<notin> set (phones r)"
  then have "find_phone r old = None" by (simp add: find_phone_None)
  then show "edit_phone r old new = Raise NotFound r" by (simp add: edit_phone_def)
next
  assume a: "old \<in> set (phones r) \<and> Phone new = Inr new"
  let ?r1 = "r\<lparr>phones := phones r @ [new]\<rparr>"
  from a have f: "find_phone r old = Some old" by (simp add: find_phone_Some)
  from a have ad: "add_phone r new = Return ?r1" by (simp add: add_phone_def)
  have "find_phone ?r1 old = Some old" using a by (intro find_phone_Some) simp
  then have "remove_phone ?r1 old = r\<lparr>phones := remove1 old (phones r @ [new])\<rparr>"
    by (simp add: remove_phone_def)
  with f ad show "edit_phone r old new = Return (r\<lparr>phones := remove1 old (phones r @ [new])\<rparr>)"
    by (simp add: edit_phone_def)
qed

text \<open>Both cases on a record with one phone.\<close>

theorem edit_phone_contract_witness:
  "(lit ''1111111111'') \<notin> set (phones \<lparr>name = (lit ''Bob''), phones = [(lit ''0501234567'')], birthday = None\<rparr>) \<and>
   edit_phone \<lparr>name = (lit ''Bob''), phones = [(lit ''0501234567'')], birthday = None\<rparr> (lit ''1111111111'') (lit ''2222222222'')
     = Raise NotFound \<lparr>name = (lit ''Bob''), phones = [(lit ''0501234567'')], birthday = None\<rparr> \<and>
   (lit ''0501234567'') \<in> set (phones \<lparr>name = (lit ''Bob''), phones = [(lit ''0501234567'')], birthday = None\<rparr>) \<and>
   Phone (lit ''2222222222'') = Inr (lit ''2222222222'') \<and>
   edit_phone \<lparr>name = (lit ''Bob''), phones = [(lit ''0501234567'')], birthday = None\<rparr> (lit ''0501234567'') (lit ''2222222222'')
     = Return \<lparr>name = (lit ''Bob''), phones = [(lit ''2222222222'')], birthday = None\<rparr>"
proof -
  have p: "Phone (lit ''2222222222'') = Inr (lit ''2222222222'')"
    by code_simp
  have n: "lit ''1111111111'' \<noteq> lit ''0501234567''"
    by (simp add: lit_def)
  show ?thesis
    using edit_phone_contract [of "(lit ''1111111111'')" "\<lparr>name = (lit ''Bob''), phones = [(lit ''0501234567'')], birthday = None\<rparr>" "(lit ''2222222222'')"]
      edit_phone_contract [of "(lit ''0501234567'')" "\<lparr>name = (lit ''Bob''), phones = [(lit ''0501234567'')], birthday = None\<rparr>" "(lit ''2222222222'')"] p n
    by simp
qed



text \<open>
  Claim C3. \<^verbatim>\<open>Birthday\<close> is to refuse every string that is not a date of the calendar
  written in the fixed pattern \<^verbatim>\<open>DD.MM.YYYY\<close>, the pattern its own message asks for. The
  parser it calls is more lenient than the pattern. It accepts a day written as a space
  and a digit (\<^verbatim>\<open>' 5.01.2024'\<close>), a day and a month of one digit (\<^verbatim>\<open>'1.1.2024'\<close>), and decimal
  digits of other scripts (the year of \<^verbatim>\<open>'01.01.'\<close> followed by the Arabic-Indic digits
  U+0662 U+0660 U+0662 U+0664): none of the three strings is a date in the pattern, and
  \<^verbatim>\<open>Birthday\<close> accepts and stores each of them. The string \<^verbatim>\<open>'30.02.2024'\<close> is refused, and
  \<^verbatim>\<open>'08.06.1995'\<close>, a date in the pattern, is accepted and kept as it is.
\<close>

theorem Birthday_accepts_outside_pattern:
  "ddmmyyyy_date (lit '' 5.01.2024'') = None \<and>
   Birthday (lit '' 5.01.2024'') = Inr (lit '' 5.01.2024'') \<and>
   ddmmyyyy_date (lit ''1.1.2024'') = None \<and>
   Birthday (lit ''1.1.2024'') = Inr (lit ''1.1.2024'') \<and>
   ddmmyyyy_date ((lit ''01.01.'') @ [0x662, 0x660, 0x662, 0x664]) = None \<and>
   Birthday ((lit ''01.01.'') @ [0x662, 0x660, 0x662, 0x664]) = Inr ((lit ''01.01.'') @ [0x662, 0x660, 0x662, 0x664]) \<and>
   strptime_dmY ((lit ''01.01.'') @ [0x662, 0x660, 0x662, 0x664]) = Inr \<lparr>year = 2024, month = 1, day = 1\<rparr> \<and>
   ddmmyyyy_date (lit ''30.02.2024'') = None \<and>
   Birthday (lit ''30.02.2024'') = Inl InvalidFormat \<and>
   ddmmyyyy_date (lit ''08.06.1995'') = Some \<lparr>year = 1995, month = 6, day = 8\<rparr> \<and>
   Birthday (lit ''08.06.1995'') = Inr (lit ''08.06.1995'')"
  by code_simp



section \<open>Properties of the address book\<close>

lemma list_all_update:
  "list_all P al \<Longrightarrow> P (k, v) \<Longrightarrow> list_all P (AList.update k v al)"
  by (induction al) (auto simp: AList.update.simps)

lemma list_all_delete: "list_all P al \<Longrightarrow> list_all P (AList.delete k al)"
  by (simp add: AList.delete_eq list_all_iff)

lemma book_inv_find: "book_inv b \<Longrightarrow> find_record b k = Some r \<Longrightarrow> name r = k"
  by (auto simp: book_inv_def find_record_def list_all_iff dest: map_of_SomeD)

text \<open>
  Claim C7. In a book where every record is stored under its name (and keys are distinct,
  as in any dictionary), \<^verbatim>\<open>add_record\<close> keeps this invariant, stores the record under
  \<^verbatim>\<open>record.name\<close> so that a lookup of that name returns the record just added (the last
  write wins), keeps the place of a key that exists and appends a new one, and leaves
  other keys alone; \<^verbatim>\<open>find\<close> returns \<^verbatim>\<open>None\<close> exactly for the keys that are missing, and a
  record it returns bears the name looked up; \<^verbatim>\<open>delete\<close> changes nothing when the key is
  absent, keeps the invariant, removes the key and leaves other keys alone. The methods
  of a record never change its name, so a change to a stored record keeps the invariant too.
\<close>

theorem address_book_invariant:
  assumes "book_inv b"
  shows "book_inv (add_record b r) \<and>
         find_record (add_record b r) (name r) = Some r \<and>
         (k \<noteq> name r \<longrightarrow> find_record (add_record b r) k = find_record b k) \<and>
         map fst (add_record b r) = (if name r \<in> set (map fst b) then map fst b else map fst b @ [name r]) \<and>
         (find_record b k = None \<longleftrightarrow> k \<notin> set (map fst b)) \<and>
         (find_record b k = Some r' \<longrightarrow> name r' = k) \<and>
         (k \<notin> set (map fst b) \<longrightarrow> delete_record b k = b) \<and>
         book_inv (delete_record b k) \<and>
         find_record (delete_record b k) k = None \<and>
         (k' \<noteq> k \<longrightarrow> find_record (delete_record b k) k' = find_record b k') \<and>
         name (state_of (add_phone r v)) = name r \<and> name (remove_phone r v) = name r \<and>
         name (state_of (edit_phone r old new)) = name r \<and> name (state_of (add_birthday r d)) = name r"
proof -
  have 1: "book_inv (add_record b r)"
    using assms by (simp add: book_inv_def add_record_def distinct_update list_all_update)
  have 2: "find_record (add_record b r) (name r) = Some r"
    by (simp add: find_record_def add_record_def update_conv')
  have 3: "k \<noteq> name r \<longrightarrow> find_record (add_record b r) k = find_record b k"
    by (simp add: find_record_def add_record_def update_conv')
  have 4: "map fst (add_record b r) = (if name r \<in> set (map fst b) then map fst b else map fst b @ [name r])"
    by (simp add: add_record_def update_keys)
  have 5: "find_record b k = None \<longleftrightarrow> k \<notin> set (map fst b)"
    by (simp add: find_record_def map_of_eq_None_iff)
  have 6: "find_record b k = Some r' \<longrightarrow> name r' = k"
    using assms book_inv_find by blast
  have 7: "k \<notin> set (map fst b) \<longrightarrow> delete_record b k = b"
    by (simp add: delete_record_def)
  have 8: "book_inv (delete_record b k)"
    using assms by (simp add: book_inv_def delete_record_def distinct_delete list_all_delete)
  have 9: "find_record (delete_record b k) k = None"
  proof (cases "k \<in> set (map fst b)")
    case True
    then show ?thesis by (simp add: find_record_def delete_record_def delete_conv')
  next
    case False
    then show ?thesis by (simp add: find_record_def delete_record_def map_of_eq_None_iff)
  qed
  have 10: "k' \<noteq> k \<longrightarrow> find_record (delete_record b k) k' = find_record b k'"
    by (simp add: find_record_def delete_record_def delete_conv')
  have 11: "name (state_of (add_phone r v)) = name r" "name (remove_phone r v) = name r"
    "name (state_of (edit_phone r old new)) = name r" "name (state_of (add_birthday r d)) = name r"
    by (auto simp: add_phone_def remove_phone_def edit_phone_def add_birthday_def
        split: sum.splits option.splits)
  from 1 2 3 4 5 6 7 8 9 10 11 show ?thesis by blast
qed

text \<open>Overwriting a record, looking up and deleting a missing name, in a book of one record.\<close>

theorem address_book_invariant_witness:
  "book_inv [((lit ''Alice''), Record_init (lit ''Alice''))] \<and>
   book_inv (add_record [((lit ''Alice''), Record_init (lit ''Alice''))] \<lparr>name = (lit ''Alice''), phones = [(lit ''0501234567'')], birthday = None\<rparr>) \<and>
   find_record (add_record [((lit ''Alice''), Record_init (lit ''Alice''))] \<lparr>name = (lit ''Alice''), phones = [(lit ''0501234567'')], birthday = None\<rparr>) (lit ''Alice'')
     = Some \<lparr>name = (lit ''Alice''), phones = [(lit ''0501234567'')], birthday = None\<rparr> \<and>
   find_record [((lit ''Alice''), Record_init (lit ''Alice''))] (lit ''Bob'') = None \<and>
   delete_record [((lit ''Alice''), Record_init (lit ''Alice''))] (lit ''Bob'') = [((lit ''Alice''), Record_init (lit ''Alice''))] \<and>
   book_inv (delete_record [((lit ''Alice''), Record_init (lit ''Alice''))] (lit ''Bob''))"
proof -
  have i: "book_inv [((lit ''Alice''), Record_init (lit ''Alice''))]"
    by (simp add: book_inv_def Record_init_def)
  have n: "lit ''Bob'' \<noteq> lit ''Alice''"
    by (simp add: lit_def)
  show ?thesis
    using address_book_invariant [OF i, of "\<lparr>name = (lit ''Alice''), phones = [(lit ''0501234567'')], birthday = None\<rparr>" "(lit ''Bob'')" "Record_init (lit ''Bob'')" "(lit ''Alice'')"] i n
    by simp
qed

text \<open>
  Claim C9. Today is 03.06.2024, a Monday; the birthday of Dina is 08.06.1995. This year's
  date 08.06.2024 is a Saturday and is rolled to Monday 10.06.2024, seven days from today:
  the record is in the result for 7 days ahead, and not in the result for 6.
\<close>

theorem dina_scenario:
  "weekday \<lparr>year = 2024, month = 6, day = 3\<rparr> = 0 \<and>
   Birthday (lit ''08.06.1995'') = Inr (lit ''08.06.1995'') \<and>
   strptime_dmY (lit ''08.06.1995'') = Inr \<lparr>year = 1995, month = 6, day = 8\<rparr> \<and>
   replace_year \<lparr>year = 1995, month = 6, day = 8\<rparr> 2024 = Inr \<lparr>year = 2024, month = 6, day = 8\<rparr> \<and>
   weekday \<lparr>year = 2024, month = 6, day = 8\<rparr> = 5 \<and>
   find_next_weekday \<lparr>year = 2024, month = 6, day = 8\<rparr> 0 = Inr \<lparr>year = 2024, month = 6, day = 10\<rparr> \<and>
   weekday \<lparr>year = 2024, month = 6, day = 10\<rparr> = 0 \<and>
   days_between \<lparr>year = 2024, month = 6, day = 10\<rparr> \<lparr>year = 2024, month = 6, day = 3\<rparr> = 7 \<and>
   get_upcoming_birthdays \<lparr>year = 2024, month = 6, day = 3\<rparr>
     [((lit ''Dina''), \<lparr>name = (lit ''Dina''), phones = [], birthday = Some (lit ''08.06.1995'')\<rparr>)] 7
     = Inr [((lit ''Dina''), (lit ''10.06.2024''))] \<and>
   get_upcoming_birthdays \<lparr>year = 2024, month = 6, day = 3\<rparr>
     [((lit ''Dina''), \<lparr>name = (lit ''Dina''), phones = [], birthday = Some (lit ''08.06.1995'')\<rparr>)] 6
     = Inr []"
  by code_simp

section \<open>Properties of the calendar\<close>

text \<open>
  The day after a date has the next ordinal, so stepping \<open>n\<close> days forward adds \<open>n\<close> to
  the ordinal, as \<^verbatim>\<open>date + timedelta(days=n)\<close> does, and moves the weekday by \<open>n\<close>; the
  ordinals of the dates of the years 1 to 9999 are \<open>1\<close> to \<open>MAXORDINAL\<close>.
\<close>

lemma div_step:
  fixes y k :: int
  assumes "0 < k"
  shows "y div k = (y - 1) div k + (if y mod k = 0 then 1 else 0)"
proof (cases "y mod k = 0")
  case True
  have "y = k * (y div k) + y mod k" by simp
  with True have "y - 1 = k * (y div k - 1) + (k - 1)" by (simp add: algebra_simps)
  then have "(y - 1) div k = y div k - 1"
    using assms by (intro int_div_pos_eq [where r = "k - 1"]) auto
  with True show ?thesis by simp
next
  case False
  have "0 \<le> y mod k" using assms by simp
  with False have pos: "1 \<le> y mod k" by linarith
  have lt: "y mod k < k" using assms by simp
  have "y = k * (y div k) + y mod k" by simp
  then have "y - 1 = k * (y div k) + (y mod k - 1)" by linarith
  then have "(y - 1) div k = y div k"
    using pos lt by (intro int_div_pos_eq [where r = "y mod k - 1"]) auto
  with False show ?thesis by simp
qed

lemma mod_100_4: "(y::int) mod 100 = 0 \<Longrightarrow> y mod 4 = 0"
proof -
  assume "y mod 100 = 0"
  then have "100 dvd y" by (simp add: mod_eq_0_iff_dvd)
  moreover have "(4::int) dvd 100" by simp
  ultimately have "4 dvd y" by (rule dvd_trans [rotated])
  then show ?thesis by (simp add: mod_eq_0_iff_dvd)
qed

lemma mod_400_100: "(y::int) mod 400 = 0 \<Longrightarrow> y mod 100 = 0"
proof -
  assume "y mod 400 = 0"
  then have "400 dvd y" by (simp add: mod_eq_0_iff_dvd)
  moreover have "(100::int) dvd 400" by simp
  ultimately have "100 dvd y" by (rule dvd_trans [rotated])
  then show ?thesis by (simp add: mod_eq_0_iff_dvd)
qed

lemma days_before_year_Suc:
  "days_before_year (y + 1) = days_before_year y + (if is_leap y then 366 else 365)"
proof -
  define a b c where "a = (y - 1) div 4" and "b = (y - 1) div 100" and "c = (y - 1) div 400"
  define a' b' c' where "a' = y div 4" and "b' = y div 100" and "c' = y div 400"
  have 4: "a' = a + (if y mod 4 = 0 then 1 else 0)"
    unfolding a_def a'_def by (rule div_step) simp
  have 100: "b' = b + (if y mod 100 = 0 then 1 else 0)"
    unfolding b_def b'_def by (rule div_step) simp
  have 400: "c' = c + (if y mod 400 = 0 then 1 else 0)"
    unfolding c_def c'_def by (rule div_step) simp
  have e1: "days_before_year (y + 1) = y * 365 + a' - b' + c'"
    by (simp add: days_before_year_def a'_def b'_def c'_def)
  have e0: "days_before_year y = y * 365 - 365 + a - b + c"
    by (simp add: days_before_year_def Let_def a_def b_def c_def algebra_simps)
  have leap: "is_leap y \<longleftrightarrow> y mod 4 = 0 \<and> (y mod 100 \<noteq> 0 \<or> y mod 400 = 0)"
    by (simp add: is_leap_def)
  have s4: "y mod 4 = 0 \<Longrightarrow> a' = a + 1" "y mod 4 \<noteq> 0 \<Longrightarrow> a' = a" using 4 by simp_all
  have s100: "y mod 100 = 0 \<Longrightarrow> b' = b + 1" "y mod 100 \<noteq> 0 \<Longrightarrow> b' = b" using 100 by simp_all
  have s400: "y mod 400 = 0 \<Longrightarrow> c' = c + 1" "y mod 400 \<noteq> 0 \<Longrightarrow> c' = c" using 400 by simp_all
  have i1: "y mod 100 = 0 \<Longrightarrow> y mod 4 = 0" by (rule mod_100_4)
  have i2: "y mod 400 = 0 \<Longrightarrow> y mod 100 = 0" by (rule mod_400_100)
  define p4 p100 p400 where "p4 \<longleftrightarrow> y mod 4 = 0" and "p100 \<longleftrightarrow> y mod 100 = 0" and "p400 \<longleftrightarrow> y mod 400 = 0"
  note facts = leap s4 s100 s400 i1 i2
  note facts' = facts [folded p4_def p100_def p400_def]
  show ?thesis unfolding e1 e0
    using facts' by (cases p4; cases p100; cases p400) simp_all
qed

lemma days_before_year_mono: "y \<le> z \<Longrightarrow> days_before_year y \<le> days_before_year z"
proof (induction z rule: int_ge_induct)
  case base
  show ?case by simp
next
  case (step i)
  then show ?case by (simp add: days_before_year_Suc)
qed

lemma month_cases:
  fixes m :: int
  assumes "1 \<le> m" "m \<le> 12"
  obtains "m = 1" | "m = 2" | "m = 3" | "m = 4" | "m = 5" | "m = 6"
    | "m = 7" | "m = 8" | "m = 9" | "m = 10" | "m = 11" | "m = 12"
proof -
  have "m \<in> set [1..12]" using assms by simp
  also have "[1..12] = [1, 2, 3, 4, 5, 6, 7, 8, 9, 10, 11, 12::int]" by code_simp
  finally have "m = 1 \<or> m = 2 \<or> m = 3 \<or> m = 4 \<or> m = 5 \<or> m = 6 \<or> m = 7 \<or> m = 8 \<or> m = 9 \<or> m = 10
    \<or> m = 11 \<or> m = 12" by simp
  then show thesis using that by (elim disjE)
qed

lemma days_before_month_Suc:
  assumes "1 \<le> m" "m < 12"
  shows "days_before_month y (m + 1) = days_before_month y m + days_in_month y m"
proof -
  from assms have "1 \<le> m" "m \<le> 12" "m \<noteq> 12" by auto
  then show ?thesis
    by (cases rule: month_cases [of m]) (simp_all add: days_before_month_def days_in_month_def)
qed

lemma days_before_month_12: "days_before_month y 12 + 31 = (if is_leap y then 366 else 365)"
  by (simp add: days_before_month_def)

lemma toordinal_le_year_end:
  assumes "valid_date d"
  shows "toordinal d \<le> days_before_year (year d + 1)"
proof -
  from assms have m: "1 \<le> month d" "month d \<le> 12" and dd: "day d \<le> days_in_month (year d) (month d)"
    by (simp_all add: valid_date_def)
  have "days_before_month (year d) (month d) + day d \<le> (if is_leap (year d) then 366 else 365)"
    using dd by (cases rule: month_cases [OF m])
      (simp_all add: days_before_month_def days_in_month_def split: if_splits)
  then show ?thesis by (simp add: toordinal_def days_before_year_Suc)
qed

lemma toordinal_bounds:
  assumes "valid_date d"
  shows "1 \<le> toordinal d \<and> toordinal d \<le> MAXORDINAL"
proof -
  from assms have y: "1 \<le> year d" "year d \<le> 9999" and m: "1 \<le> month d" "month d \<le> 12"
    and dd: "1 \<le> day d" by (simp_all add: valid_date_def)
  have "days_before_year 1 \<le> days_before_year (year d)" using y(1) by (rule days_before_year_mono)
  moreover have "days_before_year 1 = 0" by (simp add: days_before_year_def)
  moreover have "0 \<le> days_before_month (year d) (month d)"
    by (simp add: days_before_month_def)
  ultimately have lo: "1 \<le> toordinal d" using dd by (simp add: toordinal_def)
  have "days_before_year (year d + 1) \<le> days_before_year 10000"
    using y(2) by (intro days_before_year_mono) simp
  moreover have "days_before_year 10000 = MAXORDINAL"
    by (simp add: days_before_year_def MAXORDINAL_def)
  ultimately have "toordinal d \<le> MAXORDINAL" using toordinal_le_year_end [OF assms] by simp
  with lo show ?thesis by simp
qed

lemma next_day_step:
  assumes "valid_date d" and "toordinal d < MAXORDINAL"
  shows "valid_date (next_day d) \<and> toordinal (next_day d) = toordinal d + 1"
proof -
  from assms have y: "1 \<le> year d" "year d \<le> 9999" and m: "1 \<le> month d" "month d \<le> 12"
    and dd: "1 \<le> day d" "day d \<le> days_in_month (year d) (month d)"
    by (simp_all add: valid_date_def)
  consider (day) "day d < days_in_month (year d) (month d)"
    | (month) "day d = days_in_month (year d) (month d)" "month d < 12"
    | (year) "day d = days_in_month (year d) (month d)" "month d = 12"
    using dd(2) m(2) by linarith
  then show ?thesis
  proof cases
    case day
    then show ?thesis using assms(1) by (simp add: next_day_def valid_date_def toordinal_def)
  next
    case month
    have "1 \<le> days_in_month (year d) (month d + 1)" by (simp add: days_in_month_def)
    then show ?thesis
      using month y m days_before_month_Suc [OF m(1) month(2), of "year d"]
      by (simp add: next_day_def valid_date_def toordinal_def)
  next
    case year
    then have d31: "day d = 31" by (simp add: days_in_month_def)
    have ord: "toordinal d = days_before_year (year d + 1)"
      using year(2) d31 days_before_month_12 [of "year d"]
      by (simp add: toordinal_def days_before_year_Suc)
    have "year d \<noteq> 9999"
    proof
      assume "year d = 9999"
      with ord have "toordinal d = MAXORDINAL" by (simp add: days_before_year_def MAXORDINAL_def)
      with assms(2) show False by simp
    qed
    with y have "year d + 1 \<le> 9999" by simp
    then show ?thesis
      using year y ord
      by (simp add: next_day_def valid_date_def toordinal_def days_in_month_def days_before_month_def)
  qed
qed

lemma funpow_next_day:
  "valid_date d \<Longrightarrow> toordinal d + int n \<le> MAXORDINAL \<Longrightarrow>
   valid_date ((next_day ^^ n) d) \<and> toordinal ((next_day ^^ n) d) = toordinal d + int n"
proof (induction n)
  case 0
  then show ?case by simp
next
  case (Suc n)
  then have ih: "valid_date ((next_day ^^ n) d)" "toordinal ((next_day ^^ n) d) = toordinal d + int n"
    by simp_all
  have "toordinal ((next_day ^^ n) d) < MAXORDINAL" using ih(2) Suc.prems(2) by simp
  from next_day_step [OF ih(1) this] ih(2) show ?case by simp
qed

lemma shift_days_forward:
  assumes "valid_date d" "0 \<le> n" "toordinal d + n \<le> MAXORDINAL"
  shows "valid_date (shift_days d n) \<and> toordinal (shift_days d n) = toordinal d + n"
  using funpow_next_day [of d "nat n"] assms by (simp add: shift_days_def)

lemma weekday_shift:
  assumes "valid_date d" "0 \<le> n" "toordinal d + n \<le> MAXORDINAL"
  shows "weekday (shift_days d n) = (weekday d + n) mod 7"
proof -
  have "toordinal (shift_days d n) = toordinal d + n" using shift_days_forward [OF assms] by simp
  then show ?thesis by (simp add: weekday_def mod_simps algebra_simps)
qed

lemma weekday_range: "0 \<le> weekday d \<and> weekday d < 7"
  by (simp add: weekday_def)

section \<open>Properties of the upcoming birthdays\<close>

lemma make_date_error: "make_date y m d = Inl e \<Longrightarrow> e = ValueError"
  by (simp add: make_date_def Let_def split: if_splits)

lemma strptime_error: "strptime_dmY s = Inl e \<Longrightarrow> e = ValueError"
  unfolding strptime_dmY_def
  by (cases "re_matches s") (auto split: if_splits dest: make_date_error)

lemma replace_year_reanchor:
  "replace_year d y = (case reanchor d y of None \<Rightarrow> Inl ValueError | Some c \<Rightarrow> Inr c)"
  by (simp add: replace_year_def make_date_def reanchor_def Let_def)

lemma reanchor_Some: "reanchor d y = Some c \<Longrightarrow> valid_date c \<and> year c = y \<and> month c = month d \<and> day c = day d"
  by (auto simp: reanchor_def Let_def split: if_splits)

lemma reanchor_twice: "reanchor d y = Some c \<Longrightarrow> reanchor c y' = reanchor d y'"
  by (auto simp: reanchor_def Let_def split: if_splits)

lemma leap_next: "is_leap y \<Longrightarrow> \<not> is_leap (y + 1)"
proof -
  assume "is_leap y"
  then have "y mod 4 = 0" by (simp add: is_leap_def)
  then have "(y + 1) mod 4 \<noteq> 0" by presburger
  then show ?thesis by (simp add: is_leap_def)
qed

lemma feb29_reanchor: "month d = 2 \<Longrightarrow> day d = 29 \<Longrightarrow> \<not> is_leap y \<Longrightarrow> reanchor d y = None"
  by (simp add: reanchor_def valid_date_def days_in_month_def)

lemma upcoming_loop_raises:
  "r \<in> set rs \<Longrightarrow> birthday r = Some b \<Longrightarrow> upcoming_entry today days (name r) b = Inl e \<Longrightarrow>
   \<exists>e'. upcoming_loop today days rs acc = Inl e'"
proof (induction rs arbitrary: acc)
  case Nil
  then show ?case by simp
next
  case (Cons x rs)
  show ?case
  proof (cases "birthday x")
    case None
    with Cons.prems have "r \<in> set rs" by auto
    from Cons.IH [OF this Cons.prems(2,3)] None show ?thesis by simp
  next
    case (Some bx)
    show ?thesis
    proof (cases "upcoming_entry today days (name x) bx")
      case (Inl e1)
      with Some show ?thesis by simp
    next
      case (Inr app)
      with Some Cons.prems have "r \<in> set rs" by auto
      from Cons.IH [OF this Cons.prems(2,3)] Some Inr show ?thesis by simp
    qed
  qed
qed

lemma feb29_entry:
  assumes "strptime_dmY b = Inr d" "month d = 2" "day d = 29"
    and "\<not> is_leap (year today) \<or> date_less \<lparr>year = year today, month = 2, day = 29\<rparr> today"
  shows "upcoming_entry today days n b = Inl ValueError"
proof (cases "is_leap (year today)")
  case False
  then have "reanchor d (year today) = None" using assms by (simp add: feb29_reanchor)
  then show ?thesis using assms(1) by (simp add: upcoming_entry_def replace_year_reanchor)
next
  case True
  then have lt: "date_less \<lparr>year = year today, month = 2, day = 29\<rparr> today" using assms(4) by simp
  have nl: "reanchor \<lparr>year = year today, month = 2, day = 29\<rparr> (year today + 1) = None"
    using leap_next [OF True] by (simp add: feb29_reanchor)
  show ?thesis
  proof (cases "reanchor d (year today)")
    case None
    then show ?thesis using assms(1) by (simp add: upcoming_entry_def replace_year_reanchor)
  next
    case (Some c)
    then have "c = \<lparr>year = year today, month = 2, day = 29\<rparr>"
      using assms(2,3) by (auto simp: reanchor_def Let_def split: if_splits)
    then show ?thesis using assms(1) Some lt nl
      by (simp add: upcoming_entry_def replace_year_reanchor)
  qed
qed

text \<open>
  Claim C10. \<^verbatim>\<open>get_upcoming_birthdays\<close> does not return for every book of validly
  constructed birthdays. If a record of the book has a birthday on 29 February, and
  today's year is not a leap year, or it is one and 29 February of it lies before today
  (the date is then moved to the next year, which is not a leap year), the call raises an
  exception instead of returning a result.
\<close>

theorem leap_day_birthday_raises:
  assumes "(k, r) \<in> set book" and "birthday r = Some b"
    and "strptime_dmY b = Inr d" and "month d = 2" and "day d = 29"
    and "\<not> is_leap (year today) \<or> date_less \<lparr>year = year today, month = 2, day = 29\<rparr> today"
  shows "\<exists>e. get_upcoming_birthdays today book days = Inl e"
proof -
  have "upcoming_entry today days (name r) b = Inl ValueError"
    using assms(3-6) by (rule feb29_entry)
  moreover have "r \<in> set (map snd book)" using assms(1) by force
  ultimately show ?thesis
    using assms(2) unfolding get_upcoming_birthdays_def by (rule upcoming_loop_raises[rotated 2])
qed

text \<open>
  The birthday 29.02.2024 is accepted by \<^verbatim>\<open>Birthday\<close>; the query raises on 15.01.2025 (2025 is
  not a leap year) and on 01.03.2024 (the date has passed, and is moved to 2025).
\<close>

theorem leap_day_birthday_raises_witness:
  "Birthday (lit ''29.02.2024'') = Inr (lit ''29.02.2024'') \<and>
   strptime_dmY (lit ''29.02.2024'') = Inr \<lparr>year = 2024, month = 2, day = 29\<rparr> \<and>
   \<not> is_leap 2025 \<and>
   (\<exists>e. get_upcoming_birthdays \<lparr>year = 2025, month = 1, day = 15\<rparr>
      [((lit ''Eve''), \<lparr>name = (lit ''Eve''), phones = [], birthday = Some (lit ''29.02.2024'')\<rparr>)] 7 = Inl e) \<and>
   is_leap 2024 \<and>
   date_less \<lparr>year = 2024, month = 2, day = 29\<rparr> \<lparr>year = 2024, month = 3, day = 1\<rparr> \<and>
   (\<exists>e. get_upcoming_birthdays \<lparr>year = 2024, month = 3, day = 1\<rparr>
      [((lit ''Eve''), \<lparr>name = (lit ''Eve''), phones = [], birthday = Some (lit ''29.02.2024'')\<rparr>)] 7 = Inl e)"
proof -
  let ?r = "\<lparr>name = (lit ''Eve''), phones = [], birthday = Some (lit ''29.02.2024'')\<rparr>"
  have p: "strptime_dmY (lit ''29.02.2024'') = Inr \<lparr>year = 2024, month = 2, day = 29\<rparr>"
    by code_simp
  have b: "Birthday (lit ''29.02.2024'') = Inr (lit ''29.02.2024'')" by (simp add: Birthday_def p)
  have m: "((lit ''Eve''), ?r) \<in> set [((lit ''Eve''), ?r)]" by simp
  have l: "is_leap 2024" "\<not> is_leap 2025" by (simp_all add: is_leap_def)
  have lt: "date_less \<lparr>year = 2024, month = 2, day = 29\<rparr> \<lparr>year = 2024, month = 3, day = 1\<rparr>"
    by (simp add: date_less_def)
  have 1: "\<exists>e. get_upcoming_birthdays \<lparr>year = 2025, month = 1, day = 15\<rparr> [((lit ''Eve''), ?r)] 7 = Inl e"
    using leap_day_birthday_raises [OF m _ p, of "\<lparr>year = 2025, month = 1, day = 15\<rparr>" 7] l by simp
  have 2: "\<exists>e. get_upcoming_birthdays \<lparr>year = 2024, month = 3, day = 1\<rparr> [((lit ''Eve''), ?r)] 7 = Inl e"
    using leap_day_birthday_raises [OF m _ p, of "\<lparr>year = 2024, month = 3, day = 1\<rparr>" 7] lt by simp
  from b p l 1 2 lt show ?thesis by blast
qed

lemma week_offsets: "[1..7] = [1, 2, 3, 4, 5, 6, 7::int]"
  by code_simp

lemma weekend_room:
  assumes "valid_date c" and "weekday c = 5 \<or> weekday c = 6"
  shows "toordinal c + (7 - weekday c) \<le> MAXORDINAL"
proof -
  have le: "toordinal c \<le> MAXORDINAL" using toordinal_bounds [OF assms(1)] by simp
  have "toordinal c \<noteq> MAXORDINAL"
  proof
    assume "toordinal c = MAXORDINAL"
    then have "weekday c = 4" by (simp add: weekday_def MAXORDINAL_def)
    with assms(2) show False by simp
  qed
  moreover have "toordinal c \<noteq> MAXORDINAL - 1"
  proof
    assume "toordinal c = MAXORDINAL - 1"
    then have "weekday c = 3" by (simp add: weekday_def MAXORDINAL_def)
    with assms(2) show False by simp
  qed
  ultimately have "toordinal c + 2 \<le> MAXORDINAL" using le by linarith
  then show ?thesis using assms(2) by auto
qed

lemma roll_forward_saturday:
  assumes "valid_date c" and "weekday c = 5"
  shows "roll_forward c = shift_days c 2" and "find_next_weekday c 0 = Inr (shift_days c 2)"
proof -
  have room: "toordinal c + 2 \<le> MAXORDINAL" using weekend_room [OF assms(1)] assms(2) by simp
  have w1: "weekday (shift_days c 1) = 6"
    using weekday_shift [of c 1] assms room by simp
  have w2: "weekday (shift_days c 2) = 0"
    using weekday_shift [of c 2] assms room by simp
  show "roll_forward c = shift_days c 2"
    using w1 w2 by (simp add: roll_forward_def week_offsets)
  have "0 < toordinal c" using toordinal_bounds [OF assms(1)] by simp
  then show "find_next_weekday c 0 = Inr (shift_days c 2)"
    using assms(2) room by (simp add: find_next_weekday_def date_add_days_def Let_def)
qed

lemma roll_forward_sunday:
  assumes "valid_date c" and "weekday c = 6"
  shows "roll_forward c = shift_days c 1" and "find_next_weekday c 0 = Inr (shift_days c 1)"
proof -
  have room: "toordinal c + 1 \<le> MAXORDINAL" using weekend_room [OF assms(1)] assms(2) by simp
  have w1: "weekday (shift_days c 1) = 0"
    using weekday_shift [of c 1] assms room by simp
  show "roll_forward c = shift_days c 1"
    using w1 by (simp add: roll_forward_def week_offsets)
  have "0 < toordinal c" using toordinal_bounds [OF assms(1)] by simp
  then show "find_next_weekday c 0 = Inr (shift_days c 1)"
    using assms(2) room by (simp add: find_next_weekday_def date_add_days_def Let_def)
qed

lemma weekend_iff: "weekday c \<ge> 5 \<longleftrightarrow> weekday c = 5 \<or> weekday c = 6"
  using weekday_range [of c] by linarith

lemma roll_step:
  assumes "valid_date c"
  shows "(if weekday c \<ge> 5 then find_next_weekday c 0 else Inr c)
         = Inr (if weekday c = 5 \<or> weekday c = 6 then roll_forward c else c)"
proof -
  consider "weekday c = 5" | "weekday c = 6" | "\<not> weekday c \<ge> 5"
    using weekend_iff [of c] by blast
  then show ?thesis
  proof cases
    case 1
    then show ?thesis using roll_forward_saturday [OF assms] by simp
  next
    case 2
    then show ?thesis using roll_forward_sunday [OF assms] by simp
  next
    case 3
    then show ?thesis using weekend_iff [of c] by simp
  qed
qed

lemma anchor_step:
  assumes "reanchor d (year today) = Some c"
  shows "(if date_less c today then replace_year c (year today + 1) else Inr c)
         = (case (if date_less c today then reanchor d (year today + 1) else Some c) of
              None \<Rightarrow> Inl ValueError | Some c' \<Rightarrow> Inr c')"
  using reanchor_twice [OF assms] by (simp add: replace_year_reanchor)

lemma upcoming_entry_candidate:
  "upcoming_entry today days n b =
     (case Option.bind (born_on b) (candidate today) of
        None \<Rightarrow> Inl ValueError
      | Some c \<Rightarrow> Inr (if in_window today days c then [(n, strftime_dmY c)] else []))"
proof (cases "strptime_dmY b")
  case (Inl e)
  then have "e = ValueError" by (rule strptime_error)
  with Inl show ?thesis by (simp add: upcoming_entry_def born_on_def)
next
  case (Inr d)
  then have born: "born_on b = Some d" by (simp add: born_on_def)
  show ?thesis
  proof (cases "reanchor d (year today)")
    case None
    then show ?thesis using Inr born
      by (simp add: upcoming_entry_def candidate_def replace_year_reanchor)
  next
    case (Some c)
    note c = this
    show ?thesis
    proof (cases "if date_less c today then reanchor d (year today + 1) else Some c")
      case None
      then show ?thesis using Inr born c anchor_step [OF c]
        by (simp add: upcoming_entry_def candidate_def replace_year_reanchor)
    next
      case (Some c')
      then have "valid_date c'"
        using c by (auto split: if_splits dest: reanchor_Some)
      from roll_step [OF this] Some show ?thesis using Inr born c anchor_step [OF c]
        by (simp add: upcoming_entry_def candidate_def replace_year_reanchor in_window_def)
    qed
  qed
qed

lemma with_birthday_Cons:
  "with_birthday ((k, r) # book) =
     (case birthday r of None \<Rightarrow> with_birthday book | Some b \<Rightarrow> (name r, b) # with_birthday book)"
  by (simp add: with_birthday_def List.map_filter_simps split: option.splits)

lemma strptime_valid: "strptime_dmY b = Inr d \<Longrightarrow> valid_date d"
  unfolding strptime_dmY_def
  by (cases "re_matches b") (auto simp: make_date_def Let_def split: if_splits)

lemma reanchor_defined:
  assumes "valid_date d" and "\<not> (month d = 2 \<and> day d = 29)" and "1 \<le> y" and "y \<le> 9999"
  shows "reanchor d y = Some \<lparr>year = y, month = month d, day = day d\<rparr>"
proof -
  from assms(1) have dd: "day d \<le> days_in_month (year d) (month d)" and rest: "1 \<le> month d" "month d \<le> 12" "1 \<le> day d"
    by (simp_all add: valid_date_def)
  have "day d \<le> days_in_month y (month d)"
    using dd assms(2) by (auto simp: days_in_month_def split: if_splits)
  then show ?thesis using rest assms(3,4) by (simp add: reanchor_def valid_date_def Let_def)
qed

lemma candidate_defined:
  assumes "valid_date d" and "\<not> (month d = 2 \<and> day d = 29)" and "1 \<le> year today" and "year today < 9999"
  shows "candidate today d \<noteq> None"
proof -
  have a: "reanchor d (year today) = Some \<lparr>year = year today, month = month d, day = day d\<rparr>"
    using assms by (intro reanchor_defined) simp_all
  have b: "reanchor d (year today + 1) = Some \<lparr>year = year today + 1, month = month d, day = day d\<rparr>"
    using assms by (intro reanchor_defined) simp_all
  show ?thesis by (simp add: candidate_def a b)
qed

lemma candidates_Cons:
  "candidates today ((k, r) # book) =
     (case birthday r of
        None \<Rightarrow> candidates today book
      | Some b \<Rightarrow> (name r, Option.bind (born_on b) (candidate today)) # candidates today book)"
  by (simp add: candidates_def with_birthday_Cons split: option.splits)

lemma year_digits_four: "1000 \<le> n \<Longrightarrow> year_digits n = four_digits n"
  by (simp add: year_digits_def)

lemma strftime_format: "1000 \<le> year d \<Longrightarrow> strftime_dmY d = format_ddmmyyyy d"
  by (simp add: strftime_dmY_def format_ddmmyyyy_def year_digits_four)

lemma next_day_year: "year d \<le> year (next_day d)"
  by (simp add: next_day_def)

lemma funpow_next_day_year: "year d \<le> year ((next_day ^^ n) d)"
proof (induction n)
  case 0
  show ?case by simp
next
  case (Suc n)
  have "year ((next_day ^^ n) d) \<le> year (next_day ((next_day ^^ n) d))" by (rule next_day_year)
  with Suc show ?case by simp
qed

lemma shift_days_year: "0 \<le> k \<Longrightarrow> year d \<le> year (shift_days d k)"
  by (simp add: shift_days_def funpow_next_day_year)

lemma roll_forward_year: "year d \<le> year (roll_forward d)"
  by (simp add: roll_forward_def week_offsets shift_days_year)

lemma candidate_year:
  assumes "candidate today d = Some c"
  shows "year today \<le> year c"
proof -
  from assms obtain c0 c1 where c0: "reanchor d (year today) = Some c0"
    and c1: "(if date_less c0 today then reanchor d (year today + 1) else Some c0) = Some c1"
    and c: "c = (if weekday c1 = 5 \<or> weekday c1 = 6 then roll_forward c1 else c1)"
    by (auto simp: candidate_def split: option.splits)
  have "year c0 = year today" using reanchor_Some [OF c0] by simp
  moreover have "year c1 = year c0 \<or> year c1 = year today + 1"
    using c1 by (auto split: if_splits dest: reanchor_Some)
  ultimately have "year today \<le> year c1" by auto
  moreover have "year c1 \<le> year c" using roll_forward_year [of c1] by (simp add: c)
  ultimately show ?thesis by simp
qed

lemma upcoming_entry_pairs:
  assumes "1000 \<le> year today" and "Option.bind (born_on b) (candidate today) = Some c"
  shows "upcoming_entry today days n b
         = Inr (if in_window today days c then [(n, format_ddmmyyyy c)] else [])"
proof -
  from assms(2) obtain d where "candidate today d = Some c"
    by (cases "born_on b") auto
  then have "year today \<le> year c" by (rule candidate_year)
  with assms(1) have "strftime_dmY c = format_ddmmyyyy c" by (intro strftime_format) simp
  then show ?thesis using assms(2) by (simp add: upcoming_entry_candidate)
qed

lemma upcoming_loop_pairs:
  assumes "1000 \<le> year today"
  shows "reanchorable today book \<Longrightarrow>
         upcoming_loop today days (map snd book) acc = Inr (acc @ upcoming_pairs today book days)"
proof (induction book arbitrary: acc)
  case Nil
  show ?case by (simp add: upcoming_pairs_def candidates_def with_birthday_def List.map_filter_simps)
next
  case (Cons kr book)
  obtain k r where kr: "kr = (k, r)" by (cases kr)
  show ?case
  proof (cases "birthday r")
    case None
    then have "reanchorable today book"
      using Cons.prems by (simp add: kr reanchorable_def candidates_Cons)
    from Cons.IH [OF this, of acc] None show ?thesis
      by (simp add: kr upcoming_pairs_def candidates_Cons)
  next
    case (Some b)
    with Cons.prems obtain c where c: "Option.bind (born_on b) (candidate today) = Some c"
      and tl: "reanchorable today book"
      by (auto simp: kr reanchorable_def candidates_Cons)
    let ?app = "if in_window today days c then [(name r, format_ddmmyyyy c)] else []"
    have "upcoming_loop today days (map snd (kr # book)) acc
          = upcoming_loop today days (map snd book) (acc @ ?app)"
      using Some upcoming_entry_pairs [OF assms c] by (simp add: kr)
    also have "\<dots> = Inr ((acc @ ?app) @ upcoming_pairs today book days)"
      by (rule Cons.IH [OF tl])
    also have "upcoming_pairs today (kr # book) days = ?app @ upcoming_pairs today book days"
      using Some c by (simp add: kr upcoming_pairs_def candidates_Cons List.map_filter_simps)
    then have "Inr ((acc @ ?app) @ upcoming_pairs today book days)
               = (Inr (acc @ upcoming_pairs today (kr # book) days) :: error + (str \<times> str) list)"
      by simp
    finally show ?thesis .
  qed
qed

lemma no_leap_day_reanchorable:
  assumes "1 \<le> year today" and "year today < 9999"
  shows "no_leap_day book \<Longrightarrow> reanchorable today book"
proof (induction book)
  case Nil
  show ?case by (simp add: reanchorable_def candidates_def with_birthday_def List.map_filter_simps)
next
  case (Cons kr book)
  obtain k r where kr: "kr = (k, r)" by (cases kr)
  show ?case
  proof (cases "birthday r")
    case None
    then show ?thesis using Cons
      by (simp add: kr reanchorable_def candidates_Cons no_leap_day_def with_birthday_Cons)
  next
    case (Some b)
    with Cons.prems obtain d where d: "born_on b = Some d" "\<not> (month d = 2 \<and> day d = 29)"
      and tl: "no_leap_day book"
      by (auto simp: kr no_leap_day_def with_birthday_Cons split: option.splits)
    from d(1) have "valid_date d"
      by (auto simp: born_on_def split: sum.splits dest: strptime_valid)
    from candidate_defined [OF this d(2) assms] obtain c where "candidate today d = Some c" by auto
    then show ?thesis using Some d(1) Cons.IH [OF tl]
      by (simp add: kr reanchorable_def candidates_Cons)
  qed
qed

lemma ann_carl_dina_bob_reanchorable:
  "reanchorable \<lparr>year = 2024, month = 6, day = 10\<rparr>
     [((lit ''Ann''), \<lparr>name = (lit ''Ann''), phones = [(lit ''0501234567'')], birthday = None\<rparr>),
      ((lit ''Carl''), \<lparr>name = (lit ''Carl''), phones = [], birthday = Some (lit ''08.06.1990'')\<rparr>),
      ((lit ''Dina''), \<lparr>name = (lit ''Dina''), phones = [], birthday = Some (lit ''15.06.1995'')\<rparr>),
      ((lit ''Bob''), \<lparr>name = (lit ''Bob''), phones = [], birthday = Some (lit ''12.06.1990'')\<rparr>)]"
  by code_simp

lemma ann_carl_dina_bob_no_leap_day:
  "no_leap_day
     [((lit ''Ann''), \<lparr>name = (lit ''Ann''), phones = [(lit ''0501234567'')], birthday = None\<rparr>),
      ((lit ''Carl''), \<lparr>name = (lit ''Carl''), phones = [], birthday = Some (lit ''08.06.1990'')\<rparr>),
      ((lit ''Dina''), \<lparr>name = (lit ''Dina''), phones = [], birthday = Some (lit ''15.06.1995'')\<rparr>),
      ((lit ''Bob''), \<lparr>name = (lit ''Bob''), phones = [], birthday = Some (lit ''12.06.1990'')\<rparr>)]"
  by code_simp

lemma ann_carl_dina_bob_pairs:
  "upcoming_pairs \<lparr>year = 2024, month = 6, day = 10\<rparr>
     [((lit ''Ann''), \<lparr>name = (lit ''Ann''), phones = [(lit ''0501234567'')], birthday = None\<rparr>),
      ((lit ''Carl''), \<lparr>name = (lit ''Carl''), phones = [], birthday = Some (lit ''08.06.1990'')\<rparr>),
      ((lit ''Dina''), \<lparr>name = (lit ''Dina''), phones = [], birthday = Some (lit ''15.06.1995'')\<rparr>),
      ((lit ''Bob''), \<lparr>name = (lit ''Bob''), phones = [], birthday = Some (lit ''12.06.1990'')\<rparr>)] 7
   = [((lit ''Dina''), (lit ''17.06.2024'')), ((lit ''Bob''), (lit ''12.06.2024''))]"
  by code_simp

text \<open>
  Claim C1, as the code has it. Take a system date of the year 1000 or later and a book
  in which every stored birthday can be re-anchored: its month and day exist in today's
  year and, if that date lies before today, in the year after it. Then for every day
  count \<^verbatim>\<open>get_upcoming_birthdays\<close> returns, and its result is what the steps of the claim
  give: it goes through exactly the records that have a birthday, in insertion order; the
  month and day of the birthday are re-anchored onto today's year, and onto the year
  after it if that date lies before today; a date that falls on a Saturday or Sunday is
  rolled forward by the least positive offset to a Monday; the record is in the result
  if and only if the rolled date is between 0 and the given number of days after today,
  both included, and its pair is the name with the rolled date as \<^verbatim>\<open>DD.MM.YYYY\<close>. Every
  book without a birthday on 29 February can be re-anchored when today's year is below
  9999.
\<close>

theorem upcoming_birthdays_algorithm:
  "(1000 \<le> year today \<and> reanchorable today book \<longrightarrow>
      get_upcoming_birthdays today book days_ahead = Inr (upcoming_pairs today book days_ahead)) \<and>
   (1 \<le> year today \<and> year today < 9999 \<and> no_leap_day book \<longrightarrow> reanchorable today book)"
  using upcoming_loop_pairs [of today book days_ahead "[]"] no_leap_day_reanchorable [of today book]
  by (simp add: get_upcoming_birthdays_def)

text \<open>
  Today is 10.06.2024, a Monday. Ann has no birthday; Carl's (08.06) has passed and moves
  to 2025; Dina's (15.06) is a Saturday, rolled to 17.06; Bob's (12.06) is a Wednesday.
\<close>

theorem upcoming_birthdays_algorithm_witness:
  "1000 \<le> year \<lparr>year = 2024, month = 6, day = 10\<rparr> \<and> year \<lparr>year = 2024, month = 6, day = 10\<rparr> < 9999 \<and>
   no_leap_day
     [((lit ''Ann''), \<lparr>name = (lit ''Ann''), phones = [(lit ''0501234567'')], birthday = None\<rparr>),
      ((lit ''Carl''), \<lparr>name = (lit ''Carl''), phones = [], birthday = Some (lit ''08.06.1990'')\<rparr>),
      ((lit ''Dina''), \<lparr>name = (lit ''Dina''), phones = [], birthday = Some (lit ''15.06.1995'')\<rparr>),
      ((lit ''Bob''), \<lparr>name = (lit ''Bob''), phones = [], birthday = Some (lit ''12.06.1990'')\<rparr>)] \<and>
   reanchorable \<lparr>year = 2024, month = 6, day = 10\<rparr>
     [((lit ''Ann''), \<lparr>name = (lit ''Ann''), phones = [(lit ''0501234567'')], birthday = None\<rparr>),
      ((lit ''Carl''), \<lparr>name = (lit ''Carl''), phones = [], birthday = Some (lit ''08.06.1990'')\<rparr>),
      ((lit ''Dina''), \<lparr>name = (lit ''Dina''), phones = [], birthday = Some (lit ''15.06.1995'')\<rparr>),
      ((lit ''Bob''), \<lparr>name = (lit ''Bob''), phones = [], birthday = Some (lit ''12.06.1990'')\<rparr>)] \<and>
   get_upcoming_birthdays \<lparr>year = 2024, month = 6, day = 10\<rparr>
     [((lit ''Ann''), \<lparr>name = (lit ''Ann''), phones = [(lit ''0501234567'')], birthday = None\<rparr>),
      ((lit ''Carl''), \<lparr>name = (lit ''Carl''), phones = [], birthday = Some (lit ''08.06.1990'')\<rparr>),
      ((lit ''Dina''), \<lparr>name = (lit ''Dina''), phones = [], birthday = Some (lit ''15.06.1995'')\<rparr>),
      ((lit ''Bob''), \<lparr>name = (lit ''Bob''), phones = [], birthday = Some (lit ''12.06.1990'')\<rparr>)] 7
   = Inr [((lit ''Dina''), (lit ''17.06.2024'')), ((lit ''Bob''), (lit ''12.06.2024''))]"
  using upcoming_birthdays_algorithm [of "\<lparr>year = 2024, month = 6, day = 10\<rparr>"
     "[((lit ''Ann''), \<lparr>name = (lit ''Ann''), phones = [(lit ''0501234567'')], birthday = None\<rparr>),
      ((lit ''Carl''), \<lparr>name = (lit ''Carl''), phones = [], birthday = Some (lit ''08.06.1990'')\<rparr>),
      ((lit ''Dina''), \<lparr>name = (lit ''Dina''), phones = [], birthday = Some (lit ''15.06.1995'')\<rparr>),
      ((lit ''Bob''), \<lparr>name = (lit ''Bob''), phones = [], birthday = Some (lit ''12.06.1990'')\<rparr>)]" 7]
    ann_carl_dina_bob_reanchorable ann_carl_dina_bob_no_leap_day ann_carl_dina_bob_pairs
  by simp

text \<open>
  The claim as stated, for every book and every system date, fails in two ways.

  Today is 10.06.2025, a Tuesday. Eve's birthday, 29.02.2024, is accepted by \<^verbatim>\<open>Birthday\<close>;
  Bob's is 12.06.1990, and its date of this year, Thursday 12.06.2025, is two days from
  today. The claim puts Bob's pair in the result for 7 days ahead, as the call on the
  book of Bob alone does. On the book of Eve and Bob the call raises \<^verbatim>\<open>ValueError\<close> at
  Eve's record, since 2025 has no 29 February, and returns no result at all.

  Today is 01.06.999, a Saturday, and Bob's birthday is 03.06.1990, whose date of this
  year is Monday 03.06.999. The pair of the claim holds the date as \<^verbatim>\<open>DD.MM.YYYY\<close>,
  \<^verbatim>\<open>'03.06.0999'\<close>; the call gives \<^verbatim>\<open>'03.06.999'\<close>.
\<close>

theorem upcoming_birthdays_counterexample:
  "Birthday (lit ''29.02.2024'') = Inr (lit ''29.02.2024'') \<and>
   Birthday (lit ''12.06.1990'') = Inr (lit ''12.06.1990'') \<and>
   Option.bind (born_on (lit ''12.06.1990'')) (candidate \<lparr>year = 2025, month = 6, day = 10\<rparr>)
     = Some \<lparr>year = 2025, month = 6, day = 12\<rparr> \<and>
   in_window \<lparr>year = 2025, month = 6, day = 10\<rparr> 7 \<lparr>year = 2025, month = 6, day = 12\<rparr> \<and>
   get_upcoming_birthdays \<lparr>year = 2025, month = 6, day = 10\<rparr>
     [((lit ''Bob''), \<lparr>name = (lit ''Bob''), phones = [], birthday = Some (lit ''12.06.1990'')\<rparr>)] 7
     = Inr [((lit ''Bob''), (lit ''12.06.2025''))] \<and>
   get_upcoming_birthdays \<lparr>year = 2025, month = 6, day = 10\<rparr>
     [((lit ''Eve''), \<lparr>name = (lit ''Eve''), phones = [], birthday = Some (lit ''29.02.2024'')\<rparr>),
      ((lit ''Bob''), \<lparr>name = (lit ''Bob''), phones = [], birthday = Some (lit ''12.06.1990'')\<rparr>)] 7
     = Inl ValueError \<and>
   Birthday (lit ''03.06.1990'') = Inr (lit ''03.06.1990'') \<and>
   upcoming_pairs \<lparr>year = 999, month = 6, day = 1\<rparr>
     [((lit ''Bob''), \<lparr>name = (lit ''Bob''), phones = [], birthday = Some (lit ''03.06.1990'')\<rparr>)] 7
     = [((lit ''Bob''), (lit ''03.06.0999''))] \<and>
   get_upcoming_birthdays \<lparr>year = 999, month = 6, day = 1\<rparr>
     [((lit ''Bob''), \<lparr>name = (lit ''Bob''), phones = [], birthday = Some (lit ''03.06.1990'')\<rparr>)] 7
     = Inr [((lit ''Bob''), (lit ''03.06.999''))]"
  by code_simp

section \<open>Properties of the deep copy\<close>

text \<open>
  A deep copy allocates and never writes to an object that was there before; every object
  it hands out is new; and what a copy shows is what its original showed.
\<close>

lemma heap_extends_refl: "heap_extends h h"
  by (simp add: heap_extends_def)

lemma heap_extends_trans: "heap_extends h1 h2 \<Longrightarrow> heap_extends h2 h3 \<Longrightarrow> heap_extends h1 h3"
  by (auto simp: heap_extends_def)

lemma deepcopy_list_fresh:
  assumes "deepcopy_list h m x = (h', m', y)" and "n \<le> next_addr h"
    and "\<forall>a b. memo_lists m a = Some b \<longrightarrow> n \<le> b \<and> b < next_addr h"
  shows "(\<forall>a b. memo_lists m' a = Some b \<longrightarrow> n \<le> b \<and> b < next_addr h') \<and>
         heap_extends h h' \<and> n \<le> y \<and> y < next_addr h' \<and>
         records h' = records h \<and> memo_records m' = memo_records m"
proof (cases "memo_lists m x")
  case None
  with assms(1) have h': "h' = h\<lparr>lists := (lists h)(next_addr h := lists h x), next_addr := next_addr h + 1\<rparr>"
    and m': "m' = m\<lparr>memo_lists := (memo_lists m)(x \<mapsto> next_addr h)\<rparr>" and y: "y = next_addr h"
    by (auto simp: deepcopy_list_def Let_def)
  have "\<forall>a b. memo_lists m' a = Some b \<longrightarrow> n \<le> b \<and> b < next_addr h'"
  proof (intro allI impI)
    fix a b assume "memo_lists m' a = Some b"
    then have "b = next_addr h \<or> memo_lists m a = Some b" by (auto simp: m' split: if_splits)
    then show "n \<le> b \<and> b < next_addr h'"
    proof
      assume "b = next_addr h"
      then show ?thesis using assms(2) by (simp add: h')
    next
      assume "memo_lists m a = Some b"
      with assms(3) have "n \<le> b \<and> b < next_addr h" by blast
      then show ?thesis by (simp add: h')
    qed
  qed
  moreover have "heap_extends h h'" unfolding h' by (simp add: heap_extends_def)
  ultimately show ?thesis using assms(2) unfolding y by (simp add: h' m')
next
  case (Some z)
  with assms(1) have e: "h' = h" "m' = m" "y = z" by (auto simp: deepcopy_list_def)
  from assms(3) Some have "n \<le> z \<and> z < next_addr h" by blast
  with assms(3) show ?thesis unfolding e by (simp add: heap_extends_refl)
qed

lemma deepcopy_record_fresh:
  assumes "deepcopy_record h m x = (h', m', y)" and "memo_fresh n h m"
  shows "memo_fresh n h' m' \<and> heap_extends h h' \<and> memo_records m' x = Some y \<and>
         memo_records m \<subseteq>\<^sub>m memo_records m'"
proof (cases "memo_records m x")
  case (Some z)
  with assms(1) have e: "h' = h" "m' = m" "y = z" by (auto simp: deepcopy_record_def)
  show ?thesis unfolding e using assms(2) Some by (simp add: heap_extends_refl)
next
  case None
  define h1 where "h1 = h\<lparr>next_addr := next_addr h + 1\<rparr>"
  define m1 where "m1 = m\<lparr>memo_records := (memo_records m)(x \<mapsto> next_addr h)\<rparr>"
  obtain h2 m2 p where dl: "deepcopy_list h1 m1 (ro_phones (records h1 x)) = (h2, m2, p)"
    by (cases "deepcopy_list h1 m1 (ro_phones (records h1 x))") auto
  have "deepcopy_record h m x =
        (h2\<lparr>records := (records h2)(next_addr h :=
                \<lparr>ro_name = ro_name (records h2 x), ro_phones = p, ro_birthday = ro_birthday (records h2 x)\<rparr>)\<rparr>,
         m2, next_addr h)"
    unfolding deepcopy_record_def using None dl [unfolded h1_def m1_def] by (simp add: Let_def)
  with assms(1) have y: "y = next_addr h" and m': "m' = m2"
    and h': "h' = h2\<lparr>records := (records h2)(next_addr h :=
                \<lparr>ro_name = ro_name (records h2 x), ro_phones = p, ro_birthday = ro_birthday (records h2 x)\<rparr>)\<rparr>"
    by auto
  have nh: "n \<le> next_addr h" using assms(2) by (simp add: memo_fresh_def)
  have ml: "\<forall>a b. memo_lists m a = Some b \<longrightarrow> n \<le> b \<and> b < next_addr h"
    using assms(2) by (simp add: memo_fresh_def)
  have mr: "\<forall>a b. memo_records m a = Some b \<longrightarrow> n \<le> b \<and> b < next_addr h \<and>
        n \<le> ro_phones (records h b) \<and> ro_phones (records h b) < next_addr h"
    using assms(2) by (simp add: memo_fresh_def)
  have n1: "n \<le> next_addr h1" using nh by (simp add: h1_def)
  have ml1: "\<forall>a b. memo_lists m1 a = Some b \<longrightarrow> n \<le> b \<and> b < next_addr h1"
  proof (intro allI impI)
    fix a b assume "memo_lists m1 a = Some b"
    then have "memo_lists m a = Some b" by (simp add: m1_def)
    with ml have "n \<le> b \<and> b < next_addr h" by blast
    then show "n \<le> b \<and> b < next_addr h1" by (simp add: h1_def)
  qed
  note dlf = deepcopy_list_fresh [OF dl n1 ml1]
  have ml2: "\<forall>a b. memo_lists m2 a = Some b \<longrightarrow> n \<le> b \<and> b < next_addr h2" using dlf by blast
  have e2: "heap_extends h1 h2" using dlf by blast
  have p: "n \<le> p" "p < next_addr h2" using dlf by blast+
  have r2: "records h2 = records h" using dlf by (simp add: h1_def)
  have mr2: "memo_records m2 = (memo_records m)(x \<mapsto> next_addr h)" using dlf by (simp add: m1_def)
  have n2: "next_addr h < next_addr h2" using e2 by (simp add: heap_extends_def h1_def)
  have nx': "next_addr h' = next_addr h2" by (simp add: h')
  have "memo_fresh n h' m'"
    unfolding memo_fresh_def
  proof (intro conjI allI impI)
    show "n \<le> next_addr h'" using nh n2 by (simp add: nx')
  next
    fix a b assume "memo_lists m' a = Some b"
    with ml2 have "n \<le> b \<and> b < next_addr h2" unfolding m' by blast
    then show "n \<le> b" "b < next_addr h'" by (simp_all add: nx')
  next
    fix a b assume ab: "memo_records m' a = Some b"
    have "n \<le> b \<and> b < next_addr h' \<and> n \<le> ro_phones (records h' b) \<and>
        ro_phones (records h' b) < next_addr h'"
    proof (cases "b = next_addr h")
      case True
      then show ?thesis using nh n2 p by (simp add: h')
    next
      case False
      with ab have "memo_records m a = Some b" by (simp add: m' mr2 split: if_splits)
      with mr have "n \<le> b \<and> b < next_addr h \<and> n \<le> ro_phones (records h b) \<and>
          ro_phones (records h b) < next_addr h" by blast
      then show ?thesis using n2 False by (simp add: h' r2)
    qed
    then show "n \<le> b" "b < next_addr h'" "n \<le> ro_phones (records h' b)"
      "ro_phones (records h' b) < next_addr h'" by simp_all
  qed
  moreover have "heap_extends h h'"
    unfolding heap_extends_def
  proof (intro conjI allI impI)
    show "next_addr h \<le> next_addr h'" using n2 by (simp add: nx')
  next
    fix a assume a: "a < next_addr h"
    then have "a < next_addr h1" by (simp add: h1_def)
    with e2 have "books h2 a = books h1 a \<and> dicts h2 a = dicts h1 a \<and>
        records h2 a = records h1 a \<and> lists h2 a = lists h1 a"
      unfolding heap_extends_def by blast
    then show "books h' a = books h a" "dicts h' a = dicts h a"
      "records h' a = records h a" "lists h' a = lists h a"
      using a by (simp_all add: h' h1_def)
  qed
  moreover have "memo_records m' x = Some y" by (simp add: m' mr2 y)
  moreover have "memo_records m \<subseteq>\<^sub>m memo_records m'"
    using None by (auto simp: m' mr2 map_le_def)
  ultimately show ?thesis by simp
qed

lemma deepcopy_items_fresh:
  "deepcopy_items h m kvs = (h', m', kvs') \<Longrightarrow> memo_fresh n h m \<Longrightarrow>
   memo_fresh n h' m' \<and> heap_extends h h' \<and> memo_records m \<subseteq>\<^sub>m memo_records m' \<and>
   map fst kvs' = map fst kvs \<and> set (map snd kvs') \<subseteq> ran (memo_records m')"
proof (induction kvs arbitrary: h m h' m' kvs')
  case Nil
  then show ?case by (auto simp: heap_extends_refl)
next
  case (Cons kv kvs)
  obtain k v where kv: "kv = (k, v)" by (cases kv)
  obtain h1 m1 v' where dr: "deepcopy_record h m v = (h1, m1, v')"
    by (cases "deepcopy_record h m v") auto
  obtain h2 m2 kvs2 where di: "deepcopy_items h1 m1 kvs = (h2, m2, kvs2)"
    by (cases "deepcopy_items h1 m1 kvs") auto
  from Cons.prems(1) have e: "h' = h2" "m' = m2" "kvs' = (k, v') # kvs2"
    unfolding kv using dr di by auto
  note r = deepcopy_record_fresh [OF dr Cons.prems(2)]
  have f1: "memo_fresh n h1 m1" using r by blast
  note i = Cons.IH [OF di f1]
  have "heap_extends h h2" using r i heap_extends_trans by blast
  moreover have le: "memo_records m \<subseteq>\<^sub>m memo_records m2"
    using r i map_le_trans by blast
  moreover have "v' \<in> ran (memo_records m2)"
  proof -
    have "memo_records m1 v = Some v'" using r by blast
    moreover have "memo_records m1 \<subseteq>\<^sub>m memo_records m2" using i by blast
    ultimately have "memo_records m2 v = Some v'" by (auto simp: map_le_def dom_def)
    then show ?thesis by (auto simp: ran_def)
  qed
  ultimately show ?case unfolding e kv using i by simp
qed

lemma memo_fresh_ran:
  "memo_fresh n h m \<Longrightarrow> a \<in> ran (memo_records m) \<Longrightarrow>
   n \<le> a \<and> a < next_addr h \<and> n \<le> ro_phones (records h a) \<and> ro_phones (records h a) < next_addr h"
  by (auto simp: memo_fresh_def ran_def)

lemma memo_fresh_empty: "n \<le> next_addr h \<Longrightarrow> memo_fresh n h empty_memo"
  by (simp add: memo_fresh_def empty_memo_def)

lemma deepcopy_dict_fresh:
  assumes "deepcopy_dict h m x = (h', m', y)" and "memo_fresh n h m"
  shows "memo_fresh n h' m' \<and> heap_extends h h' \<and> n \<le> y \<and> y < next_addr h' \<and>
         set (map snd (dicts h' y)) \<subseteq> ran (memo_records m')"
proof -
  define h1 where "h1 = h\<lparr>dicts := (dicts h)(next_addr h := []), next_addr := next_addr h + 1\<rparr>"
  obtain h2 m2 items where di: "deepcopy_items h1 m (dicts h1 x) = (h2, m2, items)"
    by (cases "deepcopy_items h1 m (dicts h1 x)") auto
  have "deepcopy_dict h m x = (h2\<lparr>dicts := (dicts h2)(next_addr h := items)\<rparr>, m2, next_addr h)"
    unfolding deepcopy_dict_def using di [unfolded h1_def] by (simp add: Let_def)
  with assms(1) have y: "y = next_addr h" and m': "m' = m2"
    and h': "h' = h2\<lparr>dicts := (dicts h2)(next_addr h := items)\<rparr>" by auto
  have nh: "n \<le> next_addr h" using assms(2) by (simp add: memo_fresh_def)
  have f1: "memo_fresh n h1 m"
    using assms(2) unfolding memo_fresh_def h1_def by (auto intro: less_SucI)
  note i = deepcopy_items_fresh [OF di f1]
  have f2: "memo_fresh n h2 m2" and e2: "heap_extends h1 h2"
    and r2: "set (map snd items) \<subseteq> ran (memo_records m2)" using i by blast+
  have n2: "next_addr h < next_addr h2" using e2 by (simp add: heap_extends_def h1_def)
  have "memo_fresh n h' m'" using f2 by (simp add: memo_fresh_def h' m')
  moreover have "heap_extends h h'"
    unfolding heap_extends_def
  proof (intro conjI allI impI)
    show "next_addr h \<le> next_addr h'" using n2 by (simp add: h')
  next
    fix a assume a: "a < next_addr h"
    then have "a < next_addr h1" by (simp add: h1_def)
    with e2 have "books h2 a = books h1 a \<and> dicts h2 a = dicts h1 a \<and>
        records h2 a = records h1 a \<and> lists h2 a = lists h1 a"
      unfolding heap_extends_def by blast
    then show "books h' a = books h a" "dicts h' a = dicts h a"
      "records h' a = records h a" "lists h' a = lists h a"
      using a by (simp_all add: h' h1_def)
  qed
  ultimately show ?thesis using nh n2 r2 by (simp add: y h' m')
qed

lemma deepcopy_book_fresh:
  assumes "deepcopy_book h b = (h', b')"
  shows "heap_extends h h' \<and> next_addr h \<le> b' \<and> next_addr h \<le> books h' b' \<and>
         list_all (\<lambda>a. next_addr h \<le> a) (record_addrs h' b') \<and>
         list_all (\<lambda>a. next_addr h \<le> a) (list_addrs h' b')"
proof -
  define n where "n = next_addr h"
  define h1 where "h1 = h\<lparr>next_addr := next_addr h + 1\<rparr>"
  obtain h2 m2 d where dd: "deepcopy_dict h1 empty_memo (books h1 b) = (h2, m2, d)"
    by (cases "deepcopy_dict h1 empty_memo (books h1 b)") auto
  have "deepcopy_book h b = (h2\<lparr>books := (books h2)(next_addr h := d)\<rparr>, next_addr h)"
    unfolding deepcopy_book_def using dd [unfolded h1_def] by (simp add: Let_def)
  with assms have b': "b' = next_addr h" and h': "h' = h2\<lparr>books := (books h2)(next_addr h := d)\<rparr>"
    by auto
  have f1: "memo_fresh n h1 empty_memo" by (rule memo_fresh_empty) (simp add: n_def h1_def)
  note dl = deepcopy_dict_fresh [OF dd f1]
  have f2: "memo_fresh n h2 m2" and e2: "heap_extends h1 h2" and d: "n \<le> d"
    and r2: "set (map snd (dicts h2 d)) \<subseteq> ran (memo_records m2)" using dl by blast+
  have n2: "next_addr h < next_addr h2" using e2 by (simp add: heap_extends_def h1_def)
  have ext: "heap_extends h h'"
    unfolding heap_extends_def
  proof (intro conjI allI impI)
    show "next_addr h \<le> next_addr h'" using n2 by (simp add: h')
  next
    fix a assume a: "a < next_addr h"
    then have "a < next_addr h1" by (simp add: h1_def)
    with e2 have "books h2 a = books h1 a \<and> dicts h2 a = dicts h1 a \<and>
        records h2 a = records h1 a \<and> lists h2 a = lists h1 a"
      unfolding heap_extends_def by blast
    then show "books h' a = books h a" "dicts h' a = dicts h a"
      "records h' a = records h a" "lists h' a = lists h a"
      using a by (simp_all add: h' h1_def)
  qed
  have ra: "record_addrs h' b' = map snd (dicts h2 d)" by (simp add: record_addrs_def h' b')
  have fr: "\<And>a. a \<in> set (record_addrs h' b') \<Longrightarrow> n \<le> a \<and> n \<le> ro_phones (records h' a)"
  proof -
    fix a assume "a \<in> set (record_addrs h' b')"
    then have "a \<in> ran (memo_records m2)" using r2 unfolding ra by blast
    from memo_fresh_ran [OF f2 this] show "n \<le> a \<and> n \<le> ro_phones (records h' a)"
      by (simp add: h')
  qed
  have "list_all (\<lambda>a. n \<le> a) (record_addrs h' b')" using fr by (simp add: list_all_iff)
  moreover have "list_all (\<lambda>a. n \<le> a) (list_addrs h' b')"
    using fr by (simp add: list_all_iff list_addrs_def)
  moreover have "n \<le> books h' b'" using d by (simp add: h' b')
  ultimately show ?thesis using ext unfolding n_def by (simp add: b')
qed

lemma book_view_frame:
  assumes "wf_book h b"
    and "\<And>a. a < next_addr h \<Longrightarrow>
      books h' a = books h a \<and> dicts h' a = dicts h a \<and> records h' a = records h a \<and> lists h' a = lists h a"
  shows "book_view h' b = book_view h b"
proof -
  from assms(1) have b: "b < next_addr h" and d: "books h b < next_addr h"
    and rs: "\<And>a. a \<in> set (record_addrs h b) \<Longrightarrow> a < next_addr h \<and> ro_phones (records h a) < next_addr h"
    by (auto simp: wf_book_def list_all_iff list_addrs_def)
  have 1: "books h' b = books h b" using assms(2) [OF b] by simp
  have 2: "dicts h' (books h b) = dicts h (books h b)" using assms(2) [OF d] by simp
  have 3: "load_record h' a = load_record h a" if "a \<in> set (record_addrs h b)" for a
  proof -
    from rs [OF that] have a: "a < next_addr h" and l: "ro_phones (records h a) < next_addr h" by simp_all
    have "records h' a = records h a" using assms(2) [OF a] by simp
    moreover have "lists h' (ro_phones (records h a)) = lists h (ro_phones (records h a))"
      using assms(2) [OF l] by simp
    ultimately show ?thesis by (simp add: load_record_def)
  qed
  show ?thesis
    unfolding book_view_def 1 2
    using 3 by (force simp: record_addrs_def)
qed

lemma store_record_frame:
  assumes "n \<le> a" and "n \<le> ro_phones (records h a)" and "x < n"
  shows "books (store_record h a r) x = books h x \<and> dicts (store_record h a r) x = dicts h x \<and>
         records (store_record h a r) x = records h x \<and> lists (store_record h a r) x = lists h x"
  using assms by (simp add: store_record_def)

lemma load_store_record:
  "load_record (store_record h a r) a = r\<lparr>name := ro_name (records h a)\<rparr>"
  by (simp add: load_record_def store_record_def)

lemma deepcopy_list_copies:
  assumes "deepcopy_list h m x = (h', m', y)"
    and "\<forall>a b. memo_lists m a = Some b \<longrightarrow> b < next_addr h \<and> lists h b = lists h0 a"
    and "lists h x = lists h0 x"
  shows "(\<forall>a b. memo_lists m' a = Some b \<longrightarrow> lists h' b = lists h0 a) \<and> lists h' y = lists h0 x \<and>
         (\<forall>a. a < next_addr h \<longrightarrow> lists h' a = lists h a)"
proof (cases "memo_lists m x")
  case None
  with assms(1) have h': "h' = h\<lparr>lists := (lists h)(next_addr h := lists h x), next_addr := next_addr h + 1\<rparr>"
    and m': "m' = m\<lparr>memo_lists := (memo_lists m)(x \<mapsto> next_addr h)\<rparr>" and y: "y = next_addr h"
    by (auto simp: deepcopy_list_def Let_def)
  have "\<forall>a b. memo_lists m' a = Some b \<longrightarrow> lists h' b = lists h0 a"
  proof (intro allI impI)
    fix a b assume ab: "memo_lists m' a = Some b"
    show "lists h' b = lists h0 a"
    proof (cases "a = x")
      case True
      with ab have "b = next_addr h" by (simp add: m')
      then show ?thesis using True assms(3) by (simp add: h')
    next
      case False
      with ab have "memo_lists m a = Some b" by (simp add: m')
      with assms(2) have "b < next_addr h \<and> lists h b = lists h0 a" by blast
      then show ?thesis by (simp add: h')
    qed
  qed
  then show ?thesis using assms(3) by (simp add: h' y)
next
  case (Some z)
  with assms(1) have e: "h' = h" "m' = m" "y = z" by (auto simp: deepcopy_list_def)
  from assms(2) Some have "lists h z = lists h0 x" by blast
  with assms(2) show ?thesis unfolding e by blast
qed

lemma deepcopy_record_copies:
  assumes "deepcopy_record h m x = (h', m', y)" and "memo_fresh n h m" and "memo_copies h0 h m"
    and "records h x = records h0 x"
    and "lists h (ro_phones (records h0 x)) = lists h0 (ro_phones (records h0 x))"
  shows "memo_copies h0 h' m'"
proof (cases "memo_records m x")
  case (Some z)
  with assms(1) have e: "h' = h" "m' = m" "y = z" by (auto simp: deepcopy_record_def)
  show ?thesis unfolding e using assms(3) .
next
  case None
  define h1 where "h1 = h\<lparr>next_addr := next_addr h + 1\<rparr>"
  define m1 where "m1 = m\<lparr>memo_records := (memo_records m)(x \<mapsto> next_addr h)\<rparr>"
  define q where "q = ro_phones (records h0 x)"
  have q: "ro_phones (records h1 x) = q" using assms(4) by (simp add: h1_def q_def)
  obtain h2 m2 p where dl: "deepcopy_list h1 m1 q = (h2, m2, p)"
    by (cases "deepcopy_list h1 m1 q") auto
  have "deepcopy_record h m x =
        (h2\<lparr>records := (records h2)(next_addr h :=
                \<lparr>ro_name = ro_name (records h2 x), ro_phones = p, ro_birthday = ro_birthday (records h2 x)\<rparr>)\<rparr>,
         m2, next_addr h)"
    unfolding deepcopy_record_def using None dl [unfolded h1_def m1_def] q [unfolded h1_def]
    by (simp add: Let_def)
  with assms(1) have y: "y = next_addr h" and m': "m' = m2"
    and h': "h' = h2\<lparr>records := (records h2)(next_addr h :=
                \<lparr>ro_name = ro_name (records h2 x), ro_phones = p, ro_birthday = ro_birthday (records h2 x)\<rparr>)\<rparr>"
    by auto
  have ml: "\<forall>a b. memo_lists m a = Some b \<longrightarrow> n \<le> b \<and> b < next_addr h"
    using assms(2) by (simp add: memo_fresh_def)
  have mr: "\<forall>a b. memo_records m a = Some b \<longrightarrow> n \<le> b \<and> b < next_addr h \<and>
        n \<le> ro_phones (records h b) \<and> ro_phones (records h b) < next_addr h"
    using assms(2) by (simp add: memo_fresh_def)
  have cl: "\<forall>a b. memo_lists m a = Some b \<longrightarrow> lists h b = lists h0 a"
    using assms(3) by (simp add: memo_copies_def)
  have cr: "\<forall>a b. memo_records m a = Some b \<longrightarrow> load_record h b = load_record h0 a"
    using assms(3) by (simp add: memo_copies_def)
  have ml1: "\<forall>a b. memo_lists m1 a = Some b \<longrightarrow> b < next_addr h1 \<and> lists h1 b = lists h0 a"
  proof (intro allI impI)
    fix a b assume "memo_lists m1 a = Some b"
    then have "memo_lists m a = Some b" by (simp add: m1_def)
    with ml cl have "b < next_addr h \<and> lists h b = lists h0 a" by blast
    then show "b < next_addr h1 \<and> lists h1 b = lists h0 a" by (simp add: h1_def)
  qed
  have lq: "lists h1 q = lists h0 q" using assms(5) by (simp add: h1_def q_def)
  note c = deepcopy_list_copies [OF dl ml1 lq]
  have cl2: "\<forall>a b. memo_lists m2 a = Some b \<longrightarrow> lists h2 b = lists h0 a" using c by blast
  have lp: "lists h2 p = lists h0 q" using c by blast
  have fr: "\<forall>a. a < next_addr h1 \<longrightarrow> lists h2 a = lists h1 a" using c by blast
  have rm: "records h2 = records h \<and> memo_records m2 = (memo_records m)(x \<mapsto> next_addr h)"
    using dl by (auto simp: deepcopy_list_def Let_def h1_def m1_def split: option.splits)
  show ?thesis
    unfolding memo_copies_def
  proof (intro conjI allI impI)
    fix a b assume "memo_lists m' a = Some b"
    with cl2 show "lists h' b = lists h0 a" by (simp add: h' m')
  next
    fix a b assume ab: "memo_records m' a = Some b"
    show "load_record h' b = load_record h0 a"
    proof (cases "a = x")
      case True
      with ab have b: "b = next_addr h" by (simp add: m' rm)
      show ?thesis unfolding b True
        using lp assms(4) by (simp add: load_record_def h' rm q_def)
    next
      case False
      with ab have old: "memo_records m a = Some b" by (simp add: m' rm)
      with mr have b: "b < next_addr h" "ro_phones (records h b) < next_addr h" by blast+
      from old cr have "load_record h b = load_record h0 a" by blast
      moreover have "lists h2 (ro_phones (records h b)) = lists h (ro_phones (records h b))"
        using fr b(2) by (simp add: h1_def)
      ultimately show ?thesis using b(1) by (simp add: load_record_def h' rm)
    qed
  qed
qed

lemma deepcopy_items_copies:
  "deepcopy_items h m kvs = (h', m', kvs') \<Longrightarrow> memo_fresh n h m \<Longrightarrow> memo_copies h0 h m \<Longrightarrow>
   heap_extends h0 h \<Longrightarrow>
   (\<And>v. v \<in> set (map snd kvs) \<Longrightarrow> v < next_addr h0 \<and> ro_phones (records h0 v) < next_addr h0) \<Longrightarrow>
   memo_copies h0 h' m' \<and>
   list_all2 (\<lambda>kv kv'. fst kv' = fst kv \<and> memo_records m' (snd kv) = Some (snd kv')) kvs kvs'"
proof (induction kvs arbitrary: h m h' m' kvs')
  case Nil
  then show ?case by auto
next
  case (Cons kv kvs)
  obtain k v where kv: "kv = (k, v)" by (cases kv)
  obtain h1 m1 v' where dr: "deepcopy_record h m v = (h1, m1, v')"
    by (cases "deepcopy_record h m v") auto
  obtain h2 m2 kvs2 where di: "deepcopy_items h1 m1 kvs = (h2, m2, kvs2)"
    by (cases "deepcopy_items h1 m1 kvs") auto
  from Cons.prems(1) have e: "h' = h2" "m' = m2" "kvs' = (k, v') # kvs2"
    unfolding kv using dr di by auto
  have v: "v < next_addr h0" "ro_phones (records h0 v) < next_addr h0"
    using Cons.prems(5) [of v] by (simp_all add: kv)
  have rv: "records h v = records h0 v" using Cons.prems(4) v(1) by (simp add: heap_extends_def)
  have lv: "lists h (ro_phones (records h0 v)) = lists h0 (ro_phones (records h0 v))"
    using Cons.prems(4) v(2) by (simp add: heap_extends_def)
  note r = deepcopy_record_fresh [OF dr Cons.prems(2)]
  have f1: "memo_fresh n h1 m1" using r by blast
  have c1: "memo_copies h0 h1 m1"
    using dr Cons.prems(2,3) rv lv by (rule deepcopy_record_copies)
  have e1: "heap_extends h0 h1" using Cons.prems(4) r heap_extends_trans by blast
  have tl: "\<And>w. w \<in> set (map snd kvs) \<Longrightarrow> w < next_addr h0 \<and> ro_phones (records h0 w) < next_addr h0"
    using Cons.prems(5) by simp
  note i = Cons.IH [OF di f1 c1 e1 tl]
  have "memo_records m1 v = Some v'" using r by blast
  moreover have "memo_records m1 \<subseteq>\<^sub>m memo_records m2"
    using deepcopy_items_fresh [OF di f1] by blast
  ultimately have "memo_records m2 v = Some v'" by (auto simp: map_le_def dom_def)
  then show ?case unfolding e kv using i by simp
qed

lemma copies_view:
  assumes "memo_copies h0 h m"
    and "list_all2 (\<lambda>kv kv'. fst kv' = fst kv \<and> memo_records m (snd kv) = Some (snd kv')) kvs kvs'"
  shows "map (\<lambda>(k, a). (k, load_record h a)) kvs' = map (\<lambda>(k, a). (k, load_record h0 a)) kvs"
  using assms(2)
proof (induction kvs kvs' rule: list_all2_induct)
  case Nil
  show ?case by simp
next
  case (Cons kv kvs kv' kvs')
  from Cons(1) assms(1) have "load_record h (snd kv') = load_record h0 (snd kv)"
    unfolding memo_copies_def by blast
  with Cons show ?case by (simp add: case_prod_unfold)
qed

lemma deepcopy_book_copies:
  assumes "deepcopy_book h b = (h', b')" and "wf_book h b"
  shows "book_view h' b' = book_view h b"
proof -
  define n where "n = next_addr h"
  define h1 where "h1 = h\<lparr>next_addr := next_addr h + 1\<rparr>"
  define x where "x = books h b"
  define h1' where "h1' = h1\<lparr>dicts := (dicts h1)(next_addr h1 := []), next_addr := next_addr h1 + 1\<rparr>"
  obtain h2 m2 items where di: "deepcopy_items h1' empty_memo (dicts h1' x) = (h2, m2, items)"
    by (cases "deepcopy_items h1' empty_memo (dicts h1' x)") auto
  have dd: "deepcopy_dict h1 empty_memo x = (h2\<lparr>dicts := (dicts h2)(next_addr h1 := items)\<rparr>, m2, next_addr h1)"
    unfolding deepcopy_dict_def using di [unfolded h1'_def] by (simp add: Let_def)
  have "deepcopy_book h b =
        ((h2\<lparr>dicts := (dicts h2)(next_addr h1 := items)\<rparr>)\<lparr>books := (books h2)(next_addr h := next_addr h1)\<rparr>,
         next_addr h)"
    unfolding deepcopy_book_def using dd [unfolded h1_def x_def] by (simp add: Let_def h1_def)
  with assms(1) have b': "b' = next_addr h"
    and h': "h' = (h2\<lparr>dicts := (dicts h2)(next_addr h1 := items)\<rparr>)\<lparr>books := (books h2)(next_addr h := next_addr h1)\<rparr>"
    by auto
  from assms(2) have xb: "x < next_addr h"
    and rs: "\<And>a. a \<in> set (map snd (dicts h x)) \<Longrightarrow> a < next_addr h \<and> ro_phones (records h a) < next_addr h"
    by (auto simp: wf_book_def list_all_iff list_addrs_def record_addrs_def x_def)
  have dx: "dicts h1' x = dicts h x" using xb by (simp add: h1'_def h1_def)
  have f: "memo_fresh n h1' empty_memo" by (rule memo_fresh_empty) (simp add: n_def h1'_def h1_def)
  have c: "memo_copies h h1' empty_memo" by (simp add: memo_copies_def empty_memo_def)
  have e: "heap_extends h h1'" by (simp add: heap_extends_def h1'_def h1_def)
  have rs': "\<And>v. v \<in> set (map snd (dicts h1' x)) \<Longrightarrow> v < next_addr h \<and> ro_phones (records h v) < next_addr h"
    using rs unfolding dx by blast
  note i = deepcopy_items_copies [OF di f c e rs']
  have c2: "memo_copies h h2 m2" using i by blast
  have l2: "list_all2 (\<lambda>kv kv'. fst kv' = fst kv \<and> memo_records m2 (snd kv) = Some (snd kv')) (dicts h x) items"
    using i unfolding dx by blast
  have "book_view h' b' = map (\<lambda>(k, a). (k, load_record h' a)) items"
    by (simp add: book_view_def h' b')
  also have "\<dots> = map (\<lambda>(k, a). (k, load_record h2 a)) items"
    by (simp add: load_record_def h')
  also have "\<dots> = map (\<lambda>(k, a). (k, load_record h a)) (dicts h x)"
    using c2 l2 by (rule copies_view)
  also have "\<dots> = book_view h b" by (simp add: book_view_def x_def)
  finally show ?thesis .
qed

lemma example_copy:
  "wf_book example_heap 0"
  "snd (deepcopy_book example_heap 0) = 4"
  "record_addrs (fst (deepcopy_book example_heap 0)) 4 = [6]"
  "book_view example_heap 0 = [((lit ''Alice''), \<lparr>name = (lit ''Alice''), phones = [(lit ''0501234567'')], birthday = None\<rparr>)]"
  "load_record (fst (deepcopy_book example_heap 0)) 6
     = \<lparr>name = (lit ''Alice''), phones = [(lit ''0501234567'')], birthday = None\<rparr>"
  "add_phone \<lparr>name = (lit ''Alice''), phones = [(lit ''0501234567'')], birthday = None\<rparr> (lit ''0671112233'')
     = Return \<lparr>name = (lit ''Alice''), phones = [(lit ''0501234567''), (lit ''0671112233'')], birthday = None\<rparr>"
  by code_simp+

text \<open>
  Claim C8. Let a book be deep-copied in a heap where all the book reaches is allocated.
  The copy shows the same records as the original. Calling any method of \<^verbatim>\<open>Record\<close> on a
  record of the copy, whatever it does to the phone list and the birthday and whether it
  returns or raises, leaves what the original book shows unchanged, while the record of
  the copy has the new phone list and birthday. The copy shares no mutable object with
  the original: its book, dictionary, records and phone lists are all at addresses
  allocated by the copy, those of the original at addresses allocated before.
\<close>

theorem deepcopy_independent:
  assumes "wf_book h b" and "deepcopy_book h b = (h', b')" and "a' \<in> set (record_addrs h' b')"
  shows "book_view h' b' = book_view h b \<and>
         book_view (state_of (call_method method h' a')) b = book_view h b \<and>
         phones (load_record (state_of (call_method method h' a')) a')
           = phones (state_of (method (load_record h' a'))) \<and>
         birthday (load_record (state_of (call_method method h' a')) a')
           = birthday (state_of (method (load_record h' a'))) \<and>
         list_all (\<lambda>a. next_addr h \<le> a) (b' # books h' b' # record_addrs h' b' @ list_addrs h' b') \<and>
         list_all (\<lambda>a. a < next_addr h) (b # books h b # record_addrs h b @ list_addrs h b)"
proof -
  note fresh = deepcopy_book_fresh [OF assms(2)]
  have ext: "heap_extends h h'" using fresh by blast
  have fr: "list_all (\<lambda>a. next_addr h \<le> a) (record_addrs h' b')"
    "list_all (\<lambda>a. next_addr h \<le> a) (list_addrs h' b')" using fresh by blast+
  have a': "next_addr h \<le> a'" using fr(1) assms(3) by (simp add: list_all_iff)
  have l': "next_addr h \<le> ro_phones (records h' a')"
    using fr(2) assms(3) by (simp add: list_all_iff list_addrs_def)
  obtain r where h'': "state_of (call_method method h' a') = store_record h' a' r"
    and r: "r = state_of (method (load_record h' a'))"
    by (cases "method (load_record h' a')") (simp_all add: call_method_def)
  have 1: "book_view h' b' = book_view h b" using assms(2,1) by (rule deepcopy_book_copies)
  have 2: "book_view (state_of (call_method method h' a')) b = book_view h b"
    unfolding h''
  proof (rule book_view_frame [OF assms(1)])
    fix x assume x: "x < next_addr h"
    from store_record_frame [OF a' l' x, of r] ext x
    show "books (store_record h' a' r) x = books h x \<and> dicts (store_record h' a' r) x = dicts h x \<and>
          records (store_record h' a' r) x = records h x \<and> lists (store_record h' a' r) x = lists h x"
      by (simp add: heap_extends_def)
  qed
  have 3: "phones (load_record (state_of (call_method method h' a')) a')
           = phones (state_of (method (load_record h' a')))"
    "birthday (load_record (state_of (call_method method h' a')) a')
           = birthday (state_of (method (load_record h' a')))"
    unfolding h'' r [symmetric] by (simp_all add: load_store_record)
  have 4: "list_all (\<lambda>a. next_addr h \<le> a) (b' # books h' b' # record_addrs h' b' @ list_addrs h' b')"
    using fresh by simp
  have 5: "list_all (\<lambda>a. a < next_addr h) (b # books h b # record_addrs h b @ list_addrs h b)"
    using assms(1) by (simp add: wf_book_def)
  from 1 2 3 4 5 show ?thesis by blast
qed

text \<open>
  The book of the example heap is copied to address 4, the record of Alice to address 6;
  a phone added to the copied record is in the copy and not in the original.
\<close>

theorem deepcopy_independent_witness:
  "wf_book example_heap 0 \<and>
   deepcopy_book example_heap 0 = (fst (deepcopy_book example_heap 0), 4) \<and>
   6 \<in> set (record_addrs (fst (deepcopy_book example_heap 0)) 4) \<and>
   book_view (fst (deepcopy_book example_heap 0)) 4
     = [((lit ''Alice''), \<lparr>name = (lit ''Alice''), phones = [(lit ''0501234567'')], birthday = None\<rparr>)] \<and>
   book_view (state_of (call_method (\<lambda>r. add_phone r (lit ''0671112233'')) (fst (deepcopy_book example_heap 0)) 6)) 0
     = [((lit ''Alice''), \<lparr>name = (lit ''Alice''), phones = [(lit ''0501234567'')], birthday = None\<rparr>)] \<and>
   phones (load_record (state_of (call_method (\<lambda>r. add_phone r (lit ''0671112233'')) (fst (deepcopy_book example_heap 0)) 6)) 6)
     = [(lit ''0501234567''), (lit ''0671112233'')]"
proof -
  have d: "deepcopy_book example_heap 0 = (fst (deepcopy_book example_heap 0), 4)"
    using example_copy(2) by (metis prod.collapse)
  have m: "6 \<in> set (record_addrs (fst (deepcopy_book example_heap 0)) 4)"
    by (simp add: example_copy(3))
  from deepcopy_independent [OF example_copy(1) d m, of "\<lambda>r. add_phone r (lit ''0671112233'')"]
  show ?thesis using d m example_copy by simp
qed

end
